theory Spec2Isabelle
  imports Complex_Main
begin

section \<open>Python values used by \<open>nevergrad/parametrization/mutation.py\<close>\<close>

text \<open>
  Exceptions are identified by their Python class. \<open>Exception\<close> is what
  \<open>Crossover._apply_array\<close> raises on a wrong number of arrays, \<open>AssertionError\<close> is a
  failed \<open>assert\<close>, \<open>ValueError\<close> is raised by \<open>_make_slices\<close> and by
  \<open>RandomState.randint\<close> on an empty range, the others come from the Python operations
  the code performs (tuple indexing, division, \<open>min\<close> of a single integer, a missing
  attribute, an axis that \<open>np.roll\<close> rejects).
\<close>

datatype error =
    Exception
  | AssertionError
  | ValueError
  | IndexError
  | ZeroDivisionError
  | TypeError
  | AttributeError
  | AxisError

text \<open>
  The random source \<open>self.random_state\<close>. Its future outcomes are the state: \<open>ints\<close>
  holds the raw integers the next calls of \<open>randint\<close> consume, \<open>normals\<close> the values the
  next Gaussian draws return. Both lists stand for streams that continue with zeros.
\<close>

record rng =
  ints :: "nat list"
  normals :: "real list"

definition next_int :: "rng \<Rightarrow> nat \<times> rng" where
  "next_int g = (case ints g of [] \<Rightarrow> (0, g) | r # rs \<Rightarrow> (r, g\<lparr>ints := rs\<rparr>))"

text \<open>\<open>rng.randint(low, high)\<close>: an integer of \<open>[low, high)\<close>; numpy raises ValueError
  when the range is empty.\<close>

definition randint :: "int \<Rightarrow> int \<Rightarrow> rng \<Rightarrow> error + (int \<times> rng)" where
  "randint low high g =
     (if low \<ge> high then Inl ValueError
      else (case next_int g of (r, g') \<Rightarrow> Inr (low + int r mod (high - low), g')))"

text \<open>\<open>rng.normal(0, 1, size=shape)\<close> read in row-major order: \<open>n\<close> values.\<close>

definition normal :: "nat \<Rightarrow> rng \<Rightarrow> real list \<times> rng" where
  "normal n g =
     (take n (normals g) @ replicate (n - length (normals g)) 0, g\<lparr>normals := drop n (normals g)\<rparr>)"

section \<open>The slice window builder \<open>_make_slices\<close>\<close>

text \<open>
  A \<open>slice(start, stop)\<close> is the pair \<open>(start, stop)\<close>. The loop
  \<open>for a, s in enumerate(shape)\<close> is the recursion on the rest of the shape, \<open>a\<close> counting
  the axes already visited; \<open>slices.append\<close> in loop order is the cons of the result.
\<close>

fun make_slices_loop ::
  "nat \<Rightarrow> nat list \<Rightarrow> int list \<Rightarrow> int \<Rightarrow> rng \<Rightarrow> error + ((int \<times> int) list \<times> rng)" where
  "make_slices_loop a [] axes sz g = Inr ([], g)"
| "make_slices_loop a (s # ss) axes sz g =
     (if int a \<in> set axes then
        (if s \<le> 1 then Inl ValueError
         else (case randint 0 (int s - sz) g of
                 Inl e \<Rightarrow> Inl e
               | Inr (start, g1) \<Rightarrow>
                   (case make_slices_loop (Suc a) ss axes sz g1 of
                      Inl e \<Rightarrow> Inl e
                    | Inr (sl, g2) \<Rightarrow> Inr ((start, start + sz) # sl, g2))))
      else (case make_slices_loop (Suc a) ss axes sz g of
              Inl e \<Rightarrow> Inl e
            | Inr (sl, g2) \<Rightarrow> Inr ((0, int s) # sl, g2)))"

definition make_slices ::
  "nat list \<Rightarrow> int list \<Rightarrow> int \<Rightarrow> rng \<Rightarrow> error + ((int \<times> int) list \<times> rng)" where
  "make_slices shp axes sz g = make_slices_loop 0 shp axes sz g"

section \<open>numpy arrays\<close>

text \<open>
  An \<open>np.ndarray\<close> is its shape and its elements in row-major (C) order, which is the
  order of \<open>ravel()\<close>. \<open>a.size\<close> is the product of the shape; a well-formed array holds
  that many elements.
\<close>

record 'a ndarray =
  shape :: "nat list"
  data :: "'a list"

definition array_size :: "'a ndarray \<Rightarrow> nat" where
  "array_size a = prod_list (shape a)"

definition wf_array :: "'a ndarray \<Rightarrow> bool" where
  "wf_array a = (length (data a) = prod_list (shape a))"

text \<open>A multi-index of an array of shape \<open>shp\<close>: one in-range position per axis.\<close>

definition valid_index :: "nat list \<Rightarrow> nat list \<Rightarrow> bool" where
  "valid_index shp idx = list_all2 (\<lambda>i s. i < s) idx shp"

fun ravel_index :: "nat list \<Rightarrow> nat list \<Rightarrow> nat" where
  "ravel_index (s # ss) (i # is) = i * prod_list ss + ravel_index ss is"
| "ravel_index _ _ = 0"

fun unravel_index :: "nat list \<Rightarrow> nat \<Rightarrow> nat list" where
  "unravel_index [] k = []"
| "unravel_index (s # ss) k = (k div prod_list ss) # unravel_index ss (k mod prod_list ss)"

text \<open>\<open>a[idx]\<close> for a multi-index, and the array of a given shape built elementwise.\<close>

definition item :: "'a ndarray \<Rightarrow> nat list \<Rightarrow> 'a" where
  "item a idx = data a ! ravel_index (shape a) idx"

definition tabulate :: "nat list \<Rightarrow> (nat list \<Rightarrow> 'a) \<Rightarrow> 'a ndarray" where
  "tabulate shp f = \<lparr>shape = shp, data = map (\<lambda>k. f (unravel_index shp k)) [0..<prod_list shp]\<rparr>"

text \<open>\<open>np.zeros(shape)\<close> and the elementwise sum of two arrays of one shape.\<close>

definition zeros :: "nat list \<Rightarrow> real ndarray" where
  "zeros shp = \<lparr>shape = shp, data = replicate (prod_list shp) 0\<rparr>"

definition add_arrays :: "real ndarray \<Rightarrow> real ndarray \<Rightarrow> real ndarray" where
  "add_arrays x y = \<lparr>shape = shape x, data = map2 (+) (data x) (data y)\<rparr>"

text \<open>
  Python's \<open>slice(start, stop).indices(n)\<close> with step 1: a negative bound counts from the
  end, and both bounds are clipped to \<open>[0, n]\<close>. The slice selects \<open>lo \<le> i < hi\<close>.
\<close>

definition slice_bound :: "nat \<Rightarrow> int \<Rightarrow> nat" where
  "slice_bound n x = nat (if x < 0 then max (x + int n) 0 else min x (int n))"

definition slice_indices :: "int \<times> int \<Rightarrow> nat \<Rightarrow> nat \<times> nat" where
  "slice_indices sl n = (slice_bound n (fst sl), slice_bound n (snd sl))"

definition in_window :: "(int \<times> int) list \<Rightarrow> nat list \<Rightarrow> nat list \<Rightarrow> bool" where
  "in_window slices shp idx =
     list_all (\<lambda>j. fst (slice_indices (slices ! j) (shp ! j)) \<le> idx ! j \<and>
                   idx ! j < snd (slice_indices (slices ! j) (shp ! j))) [0..<length shp]"

definition window_start :: "(int \<times> int) list \<Rightarrow> nat list \<Rightarrow> nat list" where
  "window_start slices shp = map (\<lambda>j. fst (slice_indices (slices ! j) (shp ! j))) [0..<length shp]"

definition window_shape :: "(int \<times> int) list \<Rightarrow> nat list \<Rightarrow> nat list" where
  "window_shape slices shp =
     map (\<lambda>j. snd (slice_indices (slices ! j) (shp ! j)) - fst (slice_indices (slices ! j) (shp ! j)))
       [0..<length shp]"

text \<open>\<open>a[tuple(slices)]\<close>, one slice per axis: the window as an array of its own.\<close>

definition get_window :: "'a ndarray \<Rightarrow> (int \<times> int) list \<Rightarrow> 'a ndarray" where
  "get_window a slices =
     tabulate (window_shape slices (shape a))
       (\<lambda>idx. item a (map2 (+) (window_start slices (shape a)) idx))"

text \<open>\<open>a[tuple(slices)] = v\<close> for \<open>v\<close> of the window's shape; returns the updated array.\<close>

definition set_window :: "'a ndarray \<Rightarrow> (int \<times> int) list \<Rightarrow> 'a ndarray \<Rightarrow> 'a ndarray" where
  "set_window a slices v =
     tabulate (shape a)
       (\<lambda>idx. if in_window slices (shape a) idx
               then item v (map2 (-) idx (window_start slices (shape a)))
               else item a idx)"

text \<open>
  \<open>np.roll(a, shifts, axis=axes)\<close>. numpy adds up the shifts given for one axis, reduces
  the sum modulo the extent and moves the element at position \<open>i\<close> of that axis to
  \<open>(i + shift) mod extent\<close>. An axis outside \<open>[-ndim, ndim)\<close> raises AxisError; a negative
  axis counts from the last.
\<close>

definition axis_offset :: "nat \<Rightarrow> int list \<Rightarrow> int list \<Rightarrow> nat \<Rightarrow> int" where
  "axis_offset ndim shifts axes j =
     sum_list (map fst (filter (\<lambda>(sh, ax). ax mod int ndim = int j) (zip shifts axes)))"

definition roll_source :: "nat list \<Rightarrow> (nat \<Rightarrow> int) \<Rightarrow> nat list \<Rightarrow> nat list" where
  "roll_source shp off idx =
     map (\<lambda>j. nat ((int (idx ! j) - off j) mod int (shp ! j))) [0..<length shp]"

definition roll_by :: "'a ndarray \<Rightarrow> (nat \<Rightarrow> int) \<Rightarrow> 'a ndarray" where
  "roll_by a off = tabulate (shape a) (\<lambda>idx. item a (roll_source (shape a) off idx))"

definition np_roll :: "'a ndarray \<Rightarrow> int list \<Rightarrow> int list \<Rightarrow> error + 'a ndarray" where
  "np_roll a shifts axes =
     (let ndim = length (shape a) in
      if list_all (\<lambda>ax. - int ndim \<le> ax \<and> ax < int ndim) axes
      then Inr (roll_by a (axis_offset ndim shifts axes))
      else Inl AxisError)"

text \<open>\<open>np.roll(a, shift)\<close> without an axis: the flattened array is rolled, the shape kept.\<close>

definition np_roll_flat :: "'a ndarray \<Rightarrow> int \<Rightarrow> 'a ndarray" where
  "np_roll_flat a shift =
     \<lparr>shape = shape a,
      data = data (roll_by \<lparr>shape = [length (data a)], data = data a\<rparr> (\<lambda>j. shift))\<rparr>"

text \<open>Python's \<open>xs[i]\<close> on a tuple: a negative index counts from the end.\<close>

definition py_index :: "'a list \<Rightarrow> int \<Rightarrow> error + 'a" where
  "py_index xs i =
     (if 0 \<le> i \<and> i < int (length xs) then Inr (xs ! nat i)
      else if - int (length xs) \<le> i \<and> i < 0 then Inr (xs ! nat (i + int (length xs)))
      else Inl IndexError)"

text \<open>Python's \<open>int(x)\<close> on a float: truncation towards zero.\<close>

definition py_int :: "real \<Rightarrow> int" where
  "py_int x = (if 0 \<le> x then \<lfloor>x\<rfloor> else \<lceil>x\<rceil>)"

text \<open>
  Python's \<open>1 / n\<close> on a positive integer: the true division returns the binary64 number
  nearest to the quotient, ties going to the even significand. With \<open>c\<close> the least number
  such that \<open>n \<le> 2 ^ c\<close>, the quotient lies in \<open>[2 ^ - c, 2 ^ (1 - c))\<close>, where the binary64 numbers
  are the multiples of \<open>2 ^ - (52 + c)\<close>.
\<close>

fun bit_length :: "nat \<Rightarrow> nat" where
  "bit_length n = (if n = 0 then 0 else Suc (bit_length (n div 2)))"

definition double_recip :: "nat \<Rightarrow> real" where
  "double_recip n =
     (let p = 2 ^ (52 + bit_length (n - 1));
          q = p div n;
          r = p mod n;
          m = (if 2 * r < n then q else if n < 2 * r then q + 1 else if even q then q else q + 1)
      in real m / real p)"

section \<open>The Choice parameter\<close>

text \<open>
  Modelled from the spec: the categorical \<open>Choice\<close> parameter of
  \<open>nevergrad.parametrization.choice\<close>: the values it chooses from, a weight vector, and
  the position of the value last sampled, which \<open>.value\<close> reads.
\<close>

record Choice =
  choices :: "int list"
  weights :: "real ndarray"
  index :: nat

definition Choice_init :: "real \<Rightarrow> int list \<Rightarrow> Choice" where
  "Choice_init w cs =
     \<lparr>choices = cs, weights = \<lparr>shape = [length cs], data = replicate (length cs) w\<rparr>, index = 0\<rparr>"

definition Choice_value :: "Choice \<Rightarrow> int" where
  "Choice_value c = choices c ! index c"

section \<open>Crossover\<close>

text \<open>
  The operator's parameters \<open>axis\<close>, \<open>max_size\<close> and \<open>fft\<close> are arguments. The spectral
  transform \<open>transforms.Fourrier(axes)\<close> is outside these sources: its \<open>forward\<close> and
  \<open>backward\<close> are the arguments \<open>fwd\<close> and \<open>bwd\<close>. The floating-point power \<open>**\<close> of the
  platform is the argument \<open>fpow\<close>.

  \<open>max_size = int(((arrays[0].size + 1) / 2)**(1 / len(axis))) if max_size is None else max_size\<close>.
  The exponent \<open>1 / len(axis)\<close> is the quotient rounded to binary64. The base
  \<open>(arrays[0].size + 1) / 2\<close> is a binary64 number as it stands for an array of fewer than
  \<open>2 ^ 53\<close> elements.
\<close>

definition resolve_max_size ::
  "(real \<Rightarrow> real \<Rightarrow> real) \<Rightarrow> int option \<Rightarrow> nat \<Rightarrow> int list \<Rightarrow> error + int" where
  "resolve_max_size fpow max_size n axis =
     (case max_size of
        Some m \<Rightarrow> Inr m
      | None \<Rightarrow>
          (if length axis = 0 then Inl ZeroDivisionError
           else Inr (py_int (fpow ((real n + 1) / 2) (double_recip (length axis))))))"

text \<open>\<open>(shape[a] - 1 for a in axis)\<close>, with Python's indexing of the shape tuple.\<close>

fun extents_minus_one :: "nat list \<Rightarrow> int list \<Rightarrow> error + int list" where
  "extents_minus_one shp [] = Inr []"
| "extents_minus_one shp (a # as) =
     (case py_index shp a of
        Inl e \<Rightarrow> Inl e
      | Inr s \<Rightarrow>
          (case extents_minus_one shp as of
             Inl e \<Rightarrow> Inl e
           | Inr r \<Rightarrow> Inr ((int s - 1) # r)))"

text \<open>\<open>max_size = min(max_size, *(shape[a] - 1 for a in axis))\<close>; \<open>min\<close> of the single
  integer left when \<open>axis\<close> is empty is a TypeError.\<close>

definition clamp_max_size :: "int \<Rightarrow> nat list \<Rightarrow> int list \<Rightarrow> error + int" where
  "clamp_max_size m shp axis =
     (case extents_minus_one shp axis of
        Inl e \<Rightarrow> Inl e
      | Inr es \<Rightarrow> (if es = [] then Inl TypeError else Inr (fold min es m)))"

text \<open>\<open>size = 1 if max_size == 1 else self.random_state.randint(1, max_size)\<close>\<close>

definition draw_size :: "int \<Rightarrow> rng \<Rightarrow> error + (int \<times> rng)" where
  "draw_size m g = (if m = 1 then Inr (1, g) else randint 1 m g)"

text \<open>Lines 73 to 84 of \<open>Crossover._apply_array\<close>, on the two arrays as they are after
  the optional transform: the shape check, the settings, the slices and the merge.\<close>

definition Crossover_window ::
  "(real \<Rightarrow> real \<Rightarrow> real) \<Rightarrow> int list option \<Rightarrow> int option \<Rightarrow> rng \<Rightarrow>
   'a ndarray \<Rightarrow> 'a ndarray \<Rightarrow> error + ('a ndarray \<times> rng)" where
  "Crossover_window fpow axis max_size g a b =
     (if shape a \<noteq> shape b then Inl AssertionError
      else
        (let ax = (case axis of None \<Rightarrow> map int [0..<length (shape a)] | Some t \<Rightarrow> t) in
         case resolve_max_size fpow max_size (array_size a) ax of
           Inl e \<Rightarrow> Inl e
         | Inr m0 \<Rightarrow>
             (case clamp_max_size m0 (shape a) ax of
                Inl e \<Rightarrow> Inl e
              | Inr m \<Rightarrow>
                  (case draw_size m g of
                     Inl e \<Rightarrow> Inl e
                   | Inr (sz, g1) \<Rightarrow>
                       (case make_slices (shape a) ax sz g1 of
                          Inl e \<Rightarrow> Inl e
                        | Inr (slices, g2) \<Rightarrow>
                            Inr (set_window a slices (get_window b slices), g2))))))"

text \<open>
  \<open>Crossover._apply_array\<close>. With \<open>fft\<close> set and no axis configured the code evaluates
  \<open>arrays[0].dim\<close>, an attribute that \<open>np.ndarray\<close> does not have (the number of axes is
  \<open>ndim\<close>): an AttributeError.
\<close>

definition Crossover_apply_array ::
  "(real \<Rightarrow> real \<Rightarrow> real) \<Rightarrow> (int list \<Rightarrow> 'a ndarray \<Rightarrow> 'b ndarray) \<Rightarrow>
   (int list \<Rightarrow> 'b ndarray \<Rightarrow> 'a ndarray) \<Rightarrow> int list option \<Rightarrow> int option \<Rightarrow> bool \<Rightarrow> rng \<Rightarrow>
   'a ndarray list \<Rightarrow> error + ('a ndarray \<times> rng)" where
  "Crossover_apply_array fpow fwd bwd axis max_size fft g arrays =
     (if length arrays \<noteq> 2 then Inl Exception
      else if fft then
        (case axis of
           None \<Rightarrow> Inl AttributeError
         | Some t \<Rightarrow>
             (case Crossover_window fpow axis max_size g (fwd t (arrays ! 0)) (fwd t (arrays ! 1)) of
                Inl e \<Rightarrow> Inl e
              | Inr (result, g') \<Rightarrow> Inr (bwd t result, g')))
      else Crossover_window fpow axis max_size g (arrays ! 0) (arrays ! 1))"

section \<open>Translation\<close>

text \<open>\<open>shifts = [self.random_state.randint(data.shape[a]) for a in axis]\<close>\<close>

fun draw_shifts :: "nat list \<Rightarrow> int list \<Rightarrow> rng \<Rightarrow> error + (int list \<times> rng)" where
  "draw_shifts shp [] g = Inr ([], g)"
| "draw_shifts shp (a # as) g =
     (case py_index shp a of
        Inl e \<Rightarrow> Inl e
      | Inr s \<Rightarrow>
          (case randint 0 (int s) g of
             Inl e \<Rightarrow> Inl e
           | Inr (v, g1) \<Rightarrow>
               (case draw_shifts shp as g1 of
                  Inl e \<Rightarrow> Inl e
                | Inr (vs, g2) \<Rightarrow> Inr (v # vs, g2))))"

text \<open>\<open>Translation._apply_array\<close>. Without a configured axis the code evaluates \<open>data.dim\<close>,
  which \<open>np.ndarray\<close> does not have: an AttributeError.\<close>

definition Translation_apply_array ::
  "int list option \<Rightarrow> rng \<Rightarrow> 'a ndarray list \<Rightarrow> error + ('a ndarray \<times> rng)" where
  "Translation_apply_array axis g arrays =
     (if length arrays \<noteq> 1 then Inl AssertionError
      else
        (case axis of
           None \<Rightarrow> Inl AttributeError
         | Some ax \<Rightarrow>
             (case draw_shifts (shape (arrays ! 0)) ax g of
                Inl e \<Rightarrow> Inl e
              | Inr (shifts, g') \<Rightarrow>
                  (case np_roll (arrays ! 0) shifts ax of
                     Inl e \<Rightarrow> Inl e
                   | Inr r \<Rightarrow> Inr (r, g')))))"

section \<open>LocalGaussian\<close>

text \<open>
  The array that \<open>LocalGaussian.apply\<close> builds: \<open>data = np.zeros(shape)\<close>, then
  \<open>data[tuple(slices)] += noise\<close> with the noise drawn in the shape of the window.
\<close>

definition LocalGaussian_data ::
  "nat list \<Rightarrow> (int \<times> int) list \<Rightarrow> real list \<Rightarrow> real ndarray" where
  "LocalGaussian_data shp slices noise =
     (let data = zeros shp
      in set_window data slices
           (add_arrays (get_window data slices)
              \<lparr>shape = window_shape slices shp, data = noise\<rparr>))"

section \<open>TunedTranslation\<close>

text \<open>
  The constructor keeps \<open>axis\<close> and \<open>shape\<close> and creates the parameter
  \<open>shift = Choice(range(1, shape[axis]))\<close>; \<open>w\<close> is the common initial weight.
\<close>

definition TunedTranslation_init :: "real \<Rightarrow> int \<Rightarrow> nat list \<Rightarrow> error + Choice" where
  "TunedTranslation_init w axis shp =
     (case py_index shp axis of
        Inl e \<Rightarrow> Inl e
      | Inr s \<Rightarrow> Inr (Choice_init w [1..int s - 1]))"

text \<open>\<open>TunedTranslation._apply_array\<close>: returns the rolled array and the \<open>shift\<close> parameter
  with its weights rolled.\<close>

definition TunedTranslation_apply_array ::
  "int \<Rightarrow> nat list \<Rightarrow> Choice \<Rightarrow> 'a ndarray list \<Rightarrow> error + ('a ndarray \<times> Choice)" where
  "TunedTranslation_apply_array axis shp shift arrays =
     (if length arrays \<noteq> 1 then Inl AssertionError
      else if shape (arrays ! 0) \<noteq> shp then Inl AssertionError
      else
        (let sh = Choice_value shift;
             shift' = shift\<lparr>weights := np_roll_flat (weights shift) sh\<rparr>
         in case np_roll (arrays ! 0) [sh] [axis] of
              Inl e \<Rightarrow> Inl e
            | Inr r \<Rightarrow> Inr (r, shift')))"


section \<open>Parameters and array objects in a store\<close>

text \<open>
  \<open>apply\<close> writes into objects that its caller holds, so the objects live in a store. The
  arrays are the objects of a heap, addressed by their position; a new array is allocated
  at the end of the heap. The arrays of the spectral domain have a heap of their own.

  \<open>Array\<close> is the parameter class of \<open>nevergrad.parametrization.data\<close>, which these
  sources import. Modelled from the spec: an Array parameter wraps a numeric array value,
  the object its attribute \<open>_value\<close> refers to, and optional lower and upper bounds.

  The sequence \<open>arrays\<close> that \<open>apply\<close> receives is the list \<open>params\<close> of the store.
\<close>

type_synonym addr = nat

record Array =
  value_ref :: addr
  bounds :: "real option \<times> real option"

record 'b store =
  params :: "Array list"
  heap :: "real ndarray list"
  spectral :: "'b ndarray list"

definition alloc :: "real ndarray \<Rightarrow> 'b store \<Rightarrow> addr \<times> 'b store" where
  "alloc a s = (length (heap s), s\<lparr>heap := heap s @ [a]\<rparr>)"

definition alloc_spectral :: "'b ndarray \<Rightarrow> 'b store \<Rightarrow> addr \<times> 'b store" where
  "alloc_spectral a s = (length (spectral s), s\<lparr>spectral := spectral s @ [a]\<rparr>)"

text \<open>\<open>np.array(a, copy=True)\<close> on the array at address \<open>a\<close> of a heap: a new object.\<close>

definition copy_array :: "'x ndarray list \<Rightarrow> addr \<Rightarrow> addr \<times> 'x ndarray list" where
  "copy_array h a = (length h, h @ [h ! a])"

text \<open>\<open>r[tuple(slices)] = v\<close> in place, on the array at address \<open>r\<close> of a heap.\<close>

definition setitem_window ::
  "addr \<Rightarrow> (int \<times> int) list \<Rightarrow> 'x ndarray \<Rightarrow> 'x ndarray list \<Rightarrow> 'x ndarray list" where
  "setitem_window r slices v h = h[r := set_window (h ! r) slices v]"

text \<open>Modelled from the spec: the setter of \<open>Array.value\<close>, which assigns the new value
  of the parameter.\<close>

definition set_value :: "Array \<Rightarrow> addr \<Rightarrow> Array" where
  "set_value p v = p\<lparr>value_ref := v\<rparr>"

text \<open>
  Modelled from the spec: the standardized (unconstrained) representation of an Array
  parameter is an encoding of its value, element by element, by a transform that may be
  nonlinear: \<open>to_std\<close>, with \<open>from_std\<close> to come back. The value and the representation
  stay consistent, so the representation is read off the value.
\<close>

definition standardized_data :: "(real \<Rightarrow> real) \<Rightarrow> Array \<Rightarrow> 'b store \<Rightarrow> real list" where
  "standardized_data to_std p s = map to_std (data (heap s ! value_ref p))"

text \<open>
  Modelled from the spec: \<open>target._internal_set_standardized_data(d, reference=rp)\<close>, as line
  149 calls it. The data \<open>d\<close> is taken relative to the parameter \<open>reference\<close>: the
  standardized representation of the target becomes the one of the reference plus \<open>d\<close>,
  and the value of the target is derived from it. \<open>target\<close> and \<open>reference\<close> are
  positions in \<open>params\<close>.
\<close>

definition internal_set_standardized_data ::
  "(real \<Rightarrow> real) \<Rightarrow> (real \<Rightarrow> real) \<Rightarrow> nat \<Rightarrow> real list \<Rightarrow> nat \<Rightarrow> 'b store \<Rightarrow> 'b store" where
  "internal_set_standardized_data to_std from_std target d reference s =
     (let rp = params s ! reference;
          new_value = \<lparr>shape = shape (heap s ! value_ref rp),
                       data = map from_std (map2 (+) (standardized_data to_std rp s) d)\<rparr>
      in case alloc new_value s of
           (a, s1) \<Rightarrow> s1\<lparr>params := (params s1)[target := set_value (params s1 ! target) a]\<rparr>)"

text \<open>Modelled from the spec: \<open>transforms.Clipping(a_min, a_max).forward\<close>, which clips every
  element into the declared bounds; a bound that is \<open>None\<close> does not clip.\<close>

definition clip :: "real option \<times> real option \<Rightarrow> real \<Rightarrow> real" where
  "clip b x =
     (let y = (case fst b of None \<Rightarrow> x | Some l \<Rightarrow> max l x)
      in (case snd b of None \<Rightarrow> y | Some h \<Rightarrow> min h y))"

definition Clipping_forward :: "real option \<times> real option \<Rightarrow> real ndarray \<Rightarrow> real ndarray" where
  "Clipping_forward b a = a\<lparr>data := map (clip b) (data a)\<rparr>"

text \<open>
  Modelled from the spec: the default \<open>Mutation.apply\<close> of the base class, used by
  Translation and TunedTranslation: \<open>_apply_array\<close> runs on the values of the arrays, and
  the array it returns is assigned as the new value of \<open>arrays[0]\<close>. The argument is the
  outcome of \<open>_apply_array\<close> with the store it leaves.
\<close>

definition Mutation_apply ::
  "(error + (addr \<times> 'x)) \<times> 'b store \<Rightarrow> (error + 'x) \<times> 'b store" where
  "Mutation_apply outcome =
     (case outcome of
        (Inl e, s1) \<Rightarrow> (Inl e, s1)
      | (Inr (new_value, x), s1) \<Rightarrow>
          (if params s1 = [] then (Inl IndexError, s1)
           else (Inr x, s1\<lparr>params := (params s1)[0 := set_value (params s1 ! 0) new_value]\<rparr>)))"

section \<open>The operators on the store\<close>

text \<open>
  Lines 73 to 82 of \<open>Crossover._apply_array\<close>: the shape check, the settings and the
  slices, from the shapes of the two arrays and the size of the first.
\<close>

definition Crossover_slices ::
  "(real \<Rightarrow> real \<Rightarrow> real) \<Rightarrow> int list option \<Rightarrow> int option \<Rightarrow> rng \<Rightarrow>
   nat list \<Rightarrow> nat list \<Rightarrow> nat \<Rightarrow> error + ((int \<times> int) list \<times> rng)" where
  "Crossover_slices fpow axis max_size g shp shp1 n =
     (if shp \<noteq> shp1 then Inl AssertionError
      else
        (let ax = (case axis of None \<Rightarrow> map int [0..<length shp] | Some t \<Rightarrow> t) in
         case resolve_max_size fpow max_size n ax of
           Inl e \<Rightarrow> Inl e
         | Inr m0 \<Rightarrow>
             (case clamp_max_size m0 shp ax of
                Inl e \<Rightarrow> Inl e
              | Inr m \<Rightarrow>
                  (case draw_size m g of
                     Inl e \<Rightarrow> Inl e
                   | Inr (sz, g1) \<Rightarrow> make_slices shp ax sz g1))))"

text \<open>
  Lines 83 and 84 on a heap: \<open>result = np.array(arrays[0], copy=True)\<close> allocates the
  copy, \<open>result[tuple(slices)] = arrays[1][tuple(slices)]\<close> writes into it in place.
\<close>

definition copy_and_merge ::
  "'x ndarray list \<Rightarrow> addr \<Rightarrow> addr \<Rightarrow> (int \<times> int) list \<Rightarrow> addr \<times> 'x ndarray list" where
  "copy_and_merge h a b slices =
     (case copy_array h a of
        (result, h1) \<Rightarrow> (result, setitem_window result slices (get_window (h1 ! b) slices) h1))"

text \<open>
  \<open>Crossover._apply_array\<close> on the store: \<open>refs\<close> are the addresses of the arrays it
  receives, and it returns the address of its result. The transform \<open>forward\<close> and
  \<open>backward\<close> return new arrays.
\<close>

definition Crossover_apply_array_st ::
  "(real \<Rightarrow> real \<Rightarrow> real) \<Rightarrow> (int list \<Rightarrow> real ndarray \<Rightarrow> 'b ndarray) \<Rightarrow>
   (int list \<Rightarrow> 'b ndarray \<Rightarrow> real ndarray) \<Rightarrow> int list option \<Rightarrow> int option \<Rightarrow> bool \<Rightarrow> rng \<Rightarrow>
   addr list \<Rightarrow> 'b store \<Rightarrow> (error + (addr \<times> rng)) \<times> 'b store" where
  "Crossover_apply_array_st fpow fwd bwd axis max_size fft g refs s =
     (if length refs \<noteq> 2 then (Inl Exception, s)
      else if fft then
        (case axis of
           None \<Rightarrow> (Inl AttributeError, s)
         | Some t \<Rightarrow>
             (case alloc_spectral (fwd t (heap s ! (refs ! 0))) s of
                (fa, s1) \<Rightarrow>
                  (case alloc_spectral (fwd t (heap s1 ! (refs ! 1))) s1 of
                     (fb, s2) \<Rightarrow>
                       (case Crossover_slices fpow axis max_size g (shape (spectral s2 ! fa))
                               (shape (spectral s2 ! fb)) (array_size (spectral s2 ! fa)) of
                          Inl e \<Rightarrow> (Inl e, s2)
                        | Inr (slices, g2) \<Rightarrow>
                            (case copy_and_merge (spectral s2) fa fb slices of
                               (result, sp) \<Rightarrow>
                                 (case alloc (bwd t (sp ! result)) (s2\<lparr>spectral := sp\<rparr>) of
                                    (out, s3) \<Rightarrow> (Inr (out, g2), s3)))))))
      else
        (case Crossover_slices fpow axis max_size g (shape (heap s ! (refs ! 0)))
                (shape (heap s ! (refs ! 1))) (array_size (heap s ! (refs ! 0))) of
           Inl e \<Rightarrow> (Inl e, s)
         | Inr (slices, g2) \<Rightarrow>
             (case copy_and_merge (heap s) (refs ! 0) (refs ! 1) slices of
                (result, h) \<Rightarrow> (Inr (result, g2), s\<lparr>heap := h\<rparr>))))"

text \<open>
  \<open>Crossover.apply\<close>, lines 59 to 64: \<open>_apply_array\<close> on the values of the arrays, the
  clipping when \<open>fft\<close> is set and a bound is declared, then the assignment to
  \<open>arrays[0].value\<close>. An exception leaves the store as it is when it is raised.
\<close>

definition Crossover_apply ::
  "(real \<Rightarrow> real \<Rightarrow> real) \<Rightarrow> (int list \<Rightarrow> real ndarray \<Rightarrow> 'b ndarray) \<Rightarrow>
   (int list \<Rightarrow> 'b ndarray \<Rightarrow> real ndarray) \<Rightarrow> int list option \<Rightarrow> int option \<Rightarrow> bool \<Rightarrow> rng \<Rightarrow>
   'b store \<Rightarrow> (error + rng) \<times> 'b store" where
  "Crossover_apply fpow fwd bwd axis max_size fft g s =
     (case Crossover_apply_array_st fpow fwd bwd axis max_size fft g (map value_ref (params s)) s of
        (Inl e, s1) \<Rightarrow> (Inl e, s1)
      | (Inr (new_value, g'), s1) \<Rightarrow>
          (let bnds = bounds (params s1 ! 0) in
           case (if fft \<and> (fst bnds \<noteq> None \<or> snd bnds \<noteq> None)
                 then alloc (Clipping_forward bnds (heap s1 ! new_value)) s1
                 else (new_value, s1)) of
             (clipped, s2) \<Rightarrow>
               (Inr g', s2\<lparr>params := (params s2)[0 := set_value (params s2 ! 0) clipped]\<rparr>)))"

text \<open>\<open>Translation._apply_array\<close> on the store; \<open>np.roll\<close> returns a new array.\<close>

definition Translation_apply_array_st ::
  "int list option \<Rightarrow> rng \<Rightarrow> addr list \<Rightarrow> 'b store \<Rightarrow> (error + (addr \<times> rng)) \<times> 'b store" where
  "Translation_apply_array_st axis g refs s =
     (if length refs \<noteq> 1 then (Inl AssertionError, s)
      else
        (case axis of
           None \<Rightarrow> (Inl AttributeError, s)
         | Some ax \<Rightarrow>
             (case draw_shifts (shape (heap s ! (refs ! 0))) ax g of
                Inl e \<Rightarrow> (Inl e, s)
              | Inr (shifts, g') \<Rightarrow>
                  (case np_roll (heap s ! (refs ! 0)) shifts ax of
                     Inl e \<Rightarrow> (Inl e, s)
                   | Inr r \<Rightarrow> (case alloc r s of (a, s1) \<Rightarrow> (Inr (a, g'), s1))))))"

definition Translation_apply ::
  "int list option \<Rightarrow> rng \<Rightarrow> 'b store \<Rightarrow> (error + rng) \<times> 'b store" where
  "Translation_apply axis g s =
     Mutation_apply (Translation_apply_array_st axis g (map value_ref (params s)) s)"

text \<open>
  \<open>LocalGaussian.apply\<close>, lines 138 to 149, with the parameters \<open>axes\<close> and \<open>size\<close> as
  arguments: the zero array is allocated, the slices are drawn, the noise is drawn in the
  shape of the window and added to the window in place, and the flattened array is passed
  to the setter of the standardized data of \<open>arrays[0]\<close> with \<open>arrays[0]\<close> as reference.
\<close>

definition LocalGaussian_apply ::
  "(real \<Rightarrow> real) \<Rightarrow> (real \<Rightarrow> real) \<Rightarrow> int list option \<Rightarrow> int \<Rightarrow> rng \<Rightarrow> 'b store \<Rightarrow>
   (error + rng) \<times> 'b store" where
  "LocalGaussian_apply to_std from_std axes sz g s =
     (if length (params s) \<noteq> 1 then (Inl AssertionError, s)
      else
        (let shp = shape (heap s ! value_ref (params s ! 0)) in
         case alloc (zeros shp) s of
           (d, s1) \<Rightarrow>
             (let axis = (case axes of None \<Rightarrow> map int [0..<length shp] | Some t \<Rightarrow> t) in
              case make_slices shp axis sz g of
                Inl e \<Rightarrow> (Inl e, s1)
              | Inr (slices, g1) \<Rightarrow>
                  (let wshape = shape (get_window (heap s1 ! d) slices) in
                   case normal (prod_list wshape) g1 of
                     (noise, g2) \<Rightarrow>
                       (let s2 = s1\<lparr>heap :=
                                   setitem_window d slices
                                     (add_arrays (get_window (heap s1 ! d) slices)
                                        \<lparr>shape = wshape, data = noise\<rparr>)
                                     (heap s1)\<rparr>
                        in (Inr g2,
                            internal_set_standardized_data to_std from_std 0
                              (data (heap s2 ! d)) 0 s2))))))"

text \<open>
  \<open>TunedTranslation._apply_array\<close> on the store. The parameter \<open>shift\<close> belongs to the
  operator: it is passed and returned with its weights rolled.
\<close>

definition TunedTranslation_apply_array_st ::
  "int \<Rightarrow> nat list \<Rightarrow> Choice \<Rightarrow> addr list \<Rightarrow> 'b store \<Rightarrow> (error + (addr \<times> Choice)) \<times> 'b store" where
  "TunedTranslation_apply_array_st axis shp shift refs s =
     (if length refs \<noteq> 1 then (Inl AssertionError, s)
      else if shape (heap s ! (refs ! 0)) \<noteq> shp then (Inl AssertionError, s)
      else
        (let sh = Choice_value shift;
             shift' = shift\<lparr>weights := np_roll_flat (weights shift) sh\<rparr>
         in case np_roll (heap s ! (refs ! 0)) [sh] [axis] of
              Inl e \<Rightarrow> (Inl e, s)
            | Inr r \<Rightarrow> (case alloc r s of (a, s1) \<Rightarrow> (Inr (a, shift'), s1))))"

definition TunedTranslation_apply ::
  "int \<Rightarrow> nat list \<Rightarrow> Choice \<Rightarrow> 'b store \<Rightarrow> (error + Choice) \<times> 'b store" where
  "TunedTranslation_apply axis shp shift s =
     Mutation_apply (TunedTranslation_apply_array_st axis shp shift (map value_ref (params s)) s)"

section \<open>Properties of the random source\<close>

lemma mod_in_range:
  fixes low high :: int
  assumes "low < high"
  shows "low \<le> low + int r mod (high - low)" "low + int r mod (high - low) < high"
proof -
  have d: "0 < high - low" using assms by simp
  have "0 \<le> int r mod (high - low)" using d by (rule pos_mod_sign)
  then show "low \<le> low + int r mod (high - low)" by simp
  have "int r mod (high - low) < high - low" using d by (rule pos_mod_bound)
  then show "low + int r mod (high - low) < high" by simp
qed

lemma randint_range:
  "randint low high g = Inr (v, g') \<Longrightarrow> low \<le> v \<and> v < high"
  by (auto simp: randint_def mod_in_range split: if_splits prod.splits)

lemma randint_ok:
  "low < high \<Longrightarrow> \<exists>v g'. randint low high g = Inr (v, g') \<and> low \<le> v \<and> v < high"
  by (auto simp: randint_def mod_in_range split: prod.splits)

lemma randint_empty: "high \<le> low \<Longrightarrow> randint low high g = Inl ValueError"
  by (simp add: randint_def)

lemma randint_hits:
  assumes "low \<le> v" "v < high"
  shows "randint low high (g\<lparr>ints := nat (v - low) # ints g\<rparr>) = Inr (v, g)"
  using assms by (simp add: randint_def next_int_def)

section \<open>Properties of the slice window builder\<close>

lemma randint_error: "randint low high g = Inl e \<Longrightarrow> e = ValueError"
  by (auto simp: randint_def split: if_splits prod.splits)

lemma make_slices_loop_Inr:
  "make_slices_loop a ss axes sz g = Inr (sl, g') \<Longrightarrow>
     length sl = length ss \<and>
     (\<forall>j<length ss.
        (int (a + j) \<in> set axes \<longrightarrow>
           2 \<le> ss ! j \<and> snd (sl ! j) = fst (sl ! j) + sz \<and> 0 \<le> fst (sl ! j) \<and>
           fst (sl ! j) < int (ss ! j) - sz) \<and>
        (int (a + j) \<notin> set axes \<longrightarrow> sl ! j = (0, int (ss ! j))))"
proof (induction ss arbitrary: a g sl)
  case Nil
  then show ?case by simp
next
  case (Cons s ss)
  show ?case
  proof (cases "int a \<in> set axes")
    case True
    with Cons.prems obtain start g1 sl' where
      s2: "2 \<le> s" and r: "randint 0 (int s - sz) g = Inr (start, g1)"
      and rest: "make_slices_loop (Suc a) ss axes sz g1 = Inr (sl', g')"
      and sl: "sl = (start, start + sz) # sl'"
      by (auto split: if_splits sum.splits prod.splits)
    from randint_range[OF r] have st: "0 \<le> start" "start < int s - sz" by simp_all
    from Cons.IH[OF rest] have ih: "length sl' = length ss"
      "\<forall>j<length ss.
        (int (Suc a + j) \<in> set axes \<longrightarrow>
           2 \<le> ss ! j \<and> snd (sl' ! j) = fst (sl' ! j) + sz \<and> 0 \<le> fst (sl' ! j) \<and>
           fst (sl' ! j) < int (ss ! j) - sz) \<and>
        (int (Suc a + j) \<notin> set axes \<longrightarrow> sl' ! j = (0, int (ss ! j)))" by simp_all
    have len: "length sl = length (s # ss)" using sl ih(1) by simp
    have "\<forall>j<length (s # ss). (int (a + j) \<in> set axes \<longrightarrow>
           2 \<le> (s # ss) ! j \<and> snd (sl ! j) = fst (sl ! j) + sz \<and> 0 \<le> fst (sl ! j) \<and>
           fst (sl ! j) < int ((s # ss) ! j) - sz) \<and>
        (int (a + j) \<notin> set axes \<longrightarrow> sl ! j = (0, int ((s # ss) ! j)))"
    proof (intro allI impI)
      fix j assume j: "j < length (s # ss)"
      show "(int (a + j) \<in> set axes \<longrightarrow>
           2 \<le> (s # ss) ! j \<and> snd (sl ! j) = fst (sl ! j) + sz \<and> 0 \<le> fst (sl ! j) \<and>
           fst (sl ! j) < int ((s # ss) ! j) - sz) \<and>
        (int (a + j) \<notin> set axes \<longrightarrow> sl ! j = (0, int ((s # ss) ! j)))"
      proof (cases j)
        case 0
        then show ?thesis using True s2 st sl by simp
      next
        case (Suc k)
        then have "k < length ss" using j by simp
        with ih(2) Suc sl show ?thesis by simp
      qed
    qed
    with len show ?thesis by blast
  next
    case False
    with Cons.prems obtain sl' where
      rest: "make_slices_loop (Suc a) ss axes sz g = Inr (sl', g')"
      and sl: "sl = (0, int s) # sl'"
      by (auto split: if_splits sum.splits prod.splits)
    from Cons.IH[OF rest] have ih: "length sl' = length ss"
      "\<forall>j<length ss.
        (int (Suc a + j) \<in> set axes \<longrightarrow>
           2 \<le> ss ! j \<and> snd (sl' ! j) = fst (sl' ! j) + sz \<and> 0 \<le> fst (sl' ! j) \<and>
           fst (sl' ! j) < int (ss ! j) - sz) \<and>
        (int (Suc a + j) \<notin> set axes \<longrightarrow> sl' ! j = (0, int (ss ! j)))" by simp_all
    have len: "length sl = length (s # ss)" using sl ih(1) by simp
    have "\<forall>j<length (s # ss). (int (a + j) \<in> set axes \<longrightarrow>
           2 \<le> (s # ss) ! j \<and> snd (sl ! j) = fst (sl ! j) + sz \<and> 0 \<le> fst (sl ! j) \<and>
           fst (sl ! j) < int ((s # ss) ! j) - sz) \<and>
        (int (a + j) \<notin> set axes \<longrightarrow> sl ! j = (0, int ((s # ss) ! j)))"
    proof (intro allI impI)
      fix j assume j: "j < length (s # ss)"
      show "(int (a + j) \<in> set axes \<longrightarrow>
           2 \<le> (s # ss) ! j \<and> snd (sl ! j) = fst (sl ! j) + sz \<and> 0 \<le> fst (sl ! j) \<and>
           fst (sl ! j) < int ((s # ss) ! j) - sz) \<and>
        (int (a + j) \<notin> set axes \<longrightarrow> sl ! j = (0, int ((s # ss) ! j)))"
      proof (cases j)
        case 0
        then show ?thesis using False sl by simp
      next
        case (Suc k)
        then have "k < length ss" using j by simp
        with ih(2) Suc sl show ?thesis by simp
      qed
    qed
    with len show ?thesis by blast
  qed
qed

lemma make_slices_loop_succeeds:
  "(\<forall>j<length ss. int (a + j) \<in> set axes \<longrightarrow> 2 \<le> ss ! j \<and> sz < int (ss ! j)) \<Longrightarrow>
   \<exists>sl g'. make_slices_loop a ss axes sz g = Inr (sl, g')"
proof (induction ss arbitrary: a g)
  case Nil
  then show ?case by simp
next
  case (Cons s ss)
  have rest: "\<forall>j<length ss. int (Suc a + j) \<in> set axes \<longrightarrow> 2 \<le> ss ! j \<and> sz < int (ss ! j)"
  proof (intro allI impI)
    fix j assume "j < length ss" "int (Suc a + j) \<in> set axes"
    then show "2 \<le> ss ! j \<and> sz < int (ss ! j)" using Cons.prems[rule_format, of "Suc j"] by simp
  qed
  show ?case
  proof (cases "int a \<in> set axes")
    case True
    with Cons.prems[rule_format, of 0] have s: "2 \<le> s" "sz < int s" by simp_all
    then obtain start g1 where r: "randint 0 (int s - sz) g = Inr (start, g1)"
      using randint_ok[of 0 "int s - sz" g] by auto
    from Cons.IH[OF rest, of g1] obtain sl g' where
      "make_slices_loop (Suc a) ss axes sz g1 = Inr (sl, g')" by blast
    then show ?thesis using True s r by simp
  next
    case False
    from Cons.IH[OF rest, of g] obtain sl g' where
      "make_slices_loop (Suc a) ss axes sz g = Inr (sl, g')" by blast
    then show ?thesis using False by simp
  qed
qed

lemma make_slices_loop_error:
  "make_slices_loop a ss axes sz g = Inl e \<Longrightarrow> e = ValueError"
proof (induction ss arbitrary: a g)
  case Nil
  then show ?case by simp
next
  case (Cons s ss)
  then show ?case
    by (auto split: if_splits sum.splits prod.splits dest: randint_error)
qed

lemma make_slices_loop_fails:
  "\<exists>j<length ss. int (a + j) \<in> set axes \<and> ss ! j \<le> 1 \<Longrightarrow>
   make_slices_loop a ss axes sz g = Inl ValueError"
proof (induction ss arbitrary: a g)
  case Nil
  then show ?case by simp
next
  case (Cons s ss)
  from Cons.prems obtain j where j: "j < length (s # ss)" "int (a + j) \<in> set axes" "(s # ss) ! j \<le> 1"
    by blast
  show ?case
  proof (cases j)
    case 0
    with j show ?thesis by simp
  next
    case (Suc k)
    with j have "\<exists>k<length ss. int (Suc a + k) \<in> set axes \<and> ss ! k \<le> 1" by auto
    from Cons.IH[OF this] have ih: "\<And>g. make_slices_loop (Suc a) ss axes sz g = Inl ValueError" .
    show ?thesis
      by (auto simp: ih split: sum.splits prod.splits dest: randint_error)
  qed
qed

lemma make_slices_loop_hits:
  "length starts = length ss \<Longrightarrow>
   (\<forall>j<length ss. int (a + j) \<in> set axes \<longrightarrow>
       2 \<le> ss ! j \<and> 0 \<le> starts ! j \<and> starts ! j < int (ss ! j) - sz) \<Longrightarrow>
   \<exists>g sl. make_slices_loop a ss axes sz g = Inr (sl, g0) \<and>
      (\<forall>j<length ss. int (a + j) \<in> set axes \<longrightarrow> fst (sl ! j) = starts ! j)"
proof (induction ss arbitrary: a starts)
  case Nil
  then show ?case by simp
next
  case (Cons s ss)
  from Cons.prems(1) obtain st starts' where starts: "starts = st # starts'" "length starts' = length ss"
    by (cases starts) auto
  have rest: "\<forall>j<length ss. int (Suc a + j) \<in> set axes \<longrightarrow>
       2 \<le> ss ! j \<and> 0 \<le> starts' ! j \<and> starts' ! j < int (ss ! j) - sz"
  proof (intro allI impI)
    fix j assume "j < length ss" "int (Suc a + j) \<in> set axes"
    then show "2 \<le> ss ! j \<and> 0 \<le> starts' ! j \<and> starts' ! j < int (ss ! j) - sz"
      using Cons.prems(2)[rule_format, of "Suc j"] starts by simp
  qed
  from Cons.IH[OF starts(2) rest] obtain g1 sl where
    ih: "make_slices_loop (Suc a) ss axes sz g1 = Inr (sl, g0)"
        "\<forall>j<length ss. int (Suc a + j) \<in> set axes \<longrightarrow> fst (sl ! j) = starts' ! j" by blast
  show ?case
  proof (cases "int a \<in> set axes")
    case True
    with Cons.prems(2)[rule_format, of 0] starts have s: "2 \<le> s" "0 \<le> st" "st < int s - sz" by simp_all
    let ?g = "g1\<lparr>ints := nat (st - 0) # ints g1\<rparr>"
    have r: "randint 0 (int s - sz) ?g = Inr (st, g1)" using s by (intro randint_hits) simp_all
    have m: "make_slices_loop a (s # ss) axes sz ?g = Inr ((st, st + sz) # sl, g0)"
      using True s r ih(1) by simp
    have "\<forall>j<length (s # ss). int (a + j) \<in> set axes \<longrightarrow> fst (((st, st + sz) # sl) ! j) = starts ! j"
    proof (intro allI impI)
      fix j assume "j < length (s # ss)" "int (a + j) \<in> set axes"
      then show "fst (((st, st + sz) # sl) ! j) = starts ! j"
        using ih(2) starts by (cases j) simp_all
    qed
    with m show ?thesis by blast
  next
    case False
    have m: "make_slices_loop a (s # ss) axes sz g1 = Inr ((0, int s) # sl, g0)"
      using False ih(1) by simp
    have "\<forall>j<length (s # ss). int (a + j) \<in> set axes \<longrightarrow> fst (((0, int s) # sl) ! j) = starts ! j"
    proof (intro allI impI)
      fix j assume "j < length (s # ss)" "int (a + j) \<in> set axes"
      then show "fst (((0, int s) # sl) ! j) = starts ! j"
        using ih(2) starts False by (cases j) simp_all
    qed
    with m show ?thesis by blast
  qed
qed

section \<open>Properties of arrays, multi-indices and windows\<close>

lemma valid_index_Nil [simp]: "valid_index [] idx \<longleftrightarrow> idx = []"
  by (simp add: valid_index_def)

lemma valid_index_Cons:
  "valid_index (s # ss) idx \<longleftrightarrow> (\<exists>i is. idx = i # is \<and> i < s \<and> valid_index ss is)"
  by (auto simp: valid_index_def list_all2_Cons2)

lemma valid_index_nth:
  "valid_index shp idx \<longleftrightarrow> length idx = length shp \<and> (\<forall>j<length shp. idx ! j < shp ! j)"
  by (auto simp: valid_index_def list_all2_conv_all_nth)

lemma ravel_index_less: "valid_index shp idx \<Longrightarrow> ravel_index shp idx < prod_list shp"
proof (induction shp arbitrary: idx)
  case Nil
  then show ?case by simp
next
  case (Cons s ss)
  then obtain i "is" where idx: "idx = i # is" "i < s" "valid_index ss is"
    by (auto simp: valid_index_Cons)
  from Cons.IH[OF idx(3)] have r: "ravel_index ss is < prod_list ss" .
  have "i * prod_list ss + ravel_index ss is < i * prod_list ss + prod_list ss" using r by simp
  also have "\<dots> = Suc i * prod_list ss" by simp
  also have "\<dots> \<le> s * prod_list ss" using idx(2) by (intro mult_le_mono1) simp
  finally show ?case using idx(1) by simp
qed

lemma unravel_ravel_index:
  "valid_index shp idx \<Longrightarrow> unravel_index shp (ravel_index shp idx) = idx"
proof (induction shp arbitrary: idx)
  case Nil
  then show ?case by simp
next
  case (Cons s ss)
  then obtain i "is" where idx: "idx = i # is" "i < s" "valid_index ss is"
    by (auto simp: valid_index_Cons)
  have r: "ravel_index ss is < prod_list ss" using idx(3) by (rule ravel_index_less)
  have "(i * prod_list ss + ravel_index ss is) div prod_list ss = i" using r by simp
  moreover have "(i * prod_list ss + ravel_index ss is) mod prod_list ss = ravel_index ss is"
    using r by simp
  ultimately show ?case using idx Cons.IH[OF idx(3)] by simp
qed

lemma unravel_index_valid: "k < prod_list shp \<Longrightarrow> valid_index shp (unravel_index shp k)"
proof (induction shp arbitrary: k)
  case Nil
  then show ?case by simp
next
  case (Cons s ss)
  from Cons.prems have pos: "0 < prod_list ss" by (cases "prod_list ss = 0") simp_all
  have "k div prod_list ss < s" using Cons.prems pos
    by (simp add: less_mult_imp_div_less mult.commute)
  moreover have "valid_index ss (unravel_index ss (k mod prod_list ss))"
    using pos by (intro Cons.IH) simp
  ultimately show ?case by (simp add: valid_index_Cons)
qed

lemma ravel_unravel_index: "k < prod_list shp \<Longrightarrow> ravel_index shp (unravel_index shp k) = k"
proof (induction shp arbitrary: k)
  case Nil
  then show ?case by simp
next
  case (Cons s ss)
  from Cons.prems have pos: "0 < prod_list ss" by (cases "prod_list ss = 0") simp_all
  have "ravel_index ss (unravel_index ss (k mod prod_list ss)) = k mod prod_list ss"
    using pos by (intro Cons.IH) simp
  then show ?case by simp
qed

lemma shape_tabulate [simp]: "shape (tabulate shp f) = shp"
  by (simp add: tabulate_def)

lemma wf_tabulate [simp]: "wf_array (tabulate shp f)"
  by (simp add: tabulate_def wf_array_def)

lemma item_tabulate: "valid_index shp idx \<Longrightarrow> item (tabulate shp f) idx = f idx"
  by (simp add: item_def tabulate_def ravel_index_less unravel_ravel_index)

lemma tabulate_cong:
  "(\<And>idx. valid_index shp idx \<Longrightarrow> f idx = g idx) \<Longrightarrow> tabulate shp f = tabulate shp g"
  by (simp add: tabulate_def unravel_index_valid)

lemma tabulate_item: "wf_array a \<Longrightarrow> tabulate (shape a) (item a) = a"
proof -
  assume wf: "wf_array a"
  have "map (\<lambda>k. data a ! ravel_index (shape a) (unravel_index (shape a) k)) [0..<prod_list (shape a)]
        = map (\<lambda>k. data a ! k) [0..<prod_list (shape a)]"
    by (simp add: ravel_unravel_index)
  also have "\<dots> = map (\<lambda>k. data a ! k) [0..<length (data a)]"
    using wf by (simp add: wf_array_def)
  also have "\<dots> = data a" by (rule map_nth)
  finally show ?thesis by (simp add: tabulate_def item_def)
qed

lemma tabulate_eq_self:
  "wf_array a \<Longrightarrow> (\<And>idx. valid_index (shape a) idx \<Longrightarrow> f idx = item a idx) \<Longrightarrow>
   tabulate (shape a) f = a"
  using tabulate_cong[of "shape a" f "item a"] tabulate_item[of a] by simp

lemma in_window_nth:
  "in_window slices shp idx \<longleftrightarrow>
     (\<forall>j<length shp. fst (slice_indices (slices ! j) (shp ! j)) \<le> idx ! j \<and>
                      idx ! j < snd (slice_indices (slices ! j) (shp ! j)))"
  by (auto simp: in_window_def list_all_iff)

lemma window_offset_valid:
  assumes "valid_index shp idx" "in_window slices shp idx"
  shows "valid_index (window_shape slices shp) (map2 (-) idx (window_start slices shp))"
  using assms
  by (auto simp: valid_index_nth in_window_nth window_shape_def window_start_def)

lemma window_offset_back:
  assumes "valid_index shp idx" "in_window slices shp idx"
  shows "map2 (+) (window_start slices shp) (map2 (-) idx (window_start slices shp)) = idx"
proof (rule nth_equalityI)
  show "length (map2 (+) (window_start slices shp) (map2 (-) idx (window_start slices shp))) = length idx"
    using assms(1) by (simp add: valid_index_nth window_start_def)
next
  fix j assume "j < length (map2 (+) (window_start slices shp) (map2 (-) idx (window_start slices shp)))"
  then have j: "j < length shp" by (simp add: window_start_def)
  then have "fst (slice_indices (slices ! j) (shp ! j)) \<le> idx ! j"
    using assms(2) by (simp add: in_window_nth)
  then show "map2 (+) (window_start slices shp) (map2 (-) idx (window_start slices shp)) ! j = idx ! j"
    using j assms(1) by (simp add: valid_index_nth window_start_def)
qed

lemma item_get_window:
  assumes "valid_index (shape b) idx" "in_window slices (shape b) idx"
  shows "item (get_window b slices) (map2 (-) idx (window_start slices (shape b))) = item b idx"
  using assms
  by (simp add: get_window_def item_tabulate window_offset_valid window_offset_back)

lemma shape_set_window [simp]: "shape (set_window a slices v) = shape a"
  by (simp add: set_window_def)

lemma item_set_window:
  assumes "valid_index (shape a) idx"
  shows "item (set_window a slices v) idx =
           (if in_window slices (shape a) idx
            then item v (map2 (-) idx (window_start slices (shape a)))
            else item a idx)"
  using assms by (simp add: set_window_def item_tabulate)

lemma item_crossover_merge:
  assumes "valid_index (shape a) idx" "shape b = shape a"
  shows "item (set_window a slices (get_window b slices)) idx =
           (if in_window slices (shape a) idx then item b idx else item a idx)"
  using assms item_get_window[of b idx slices] by (simp add: item_set_window)

lemma set_window_same:
  assumes "wf_array a"
  shows "set_window a slices (get_window a slices) = a"
proof -
  have "set_window a slices (get_window a slices) =
        tabulate (shape a) (\<lambda>idx. item (set_window a slices (get_window a slices)) idx)"
    by (metis shape_set_window tabulate_item wf_tabulate set_window_def)
  also have "\<dots> = tabulate (shape a) (item a)"
    by (rule tabulate_cong) (simp add: item_crossover_merge)
  also have "\<dots> = a" using assms by (rule tabulate_item)
  finally show ?thesis .
qed

section \<open>Properties of the Crossover settings\<close>

lemma py_index_valid:
  assumes "- int (length xs) \<le> t" "t < int (length xs)"
  shows "py_index xs t = Inr (xs ! nat (t mod int (length xs)))"
proof (cases "0 \<le> t")
  case True
  then show ?thesis using assms by (simp add: py_index_def)
next
  case False
  then have "t mod int (length xs) = t + int (length xs)"
    using assms by (smt (verit) mod_add_self2 mod_pos_pos_trivial)
  then show ?thesis using False assms by (simp add: py_index_def)
qed

lemma py_index_error: "py_index xs t = Inl e \<Longrightarrow> e = IndexError"
  by (auto simp: py_index_def split: if_splits)

lemma extents_minus_one_valid:
  "(\<forall>t\<in>set ax. - int (length shp) \<le> t \<and> t < int (length shp)) \<Longrightarrow>
   extents_minus_one shp ax = Inr (map (\<lambda>t. int (shp ! nat (t mod int (length shp))) - 1) ax)"
  by (induction ax) (simp_all add: py_index_valid)

lemma fold_min_Min: "fold min es (m::int) = Min (insert m (set es))"
  using Min.set_eq_fold[of m es] by simp

lemma clamp_max_size_valid:
  assumes "\<forall>t\<in>set ax. - int (length shp) \<le> t \<and> t < int (length shp)" "ax \<noteq> []"
  shows "clamp_max_size m shp ax =
           Inr (Min (insert m ((\<lambda>t. int (shp ! nat (t mod int (length shp))) - 1) ` set ax)))"
  using assms by (simp add: clamp_max_size_def extents_minus_one_valid fold_min_Min)

lemma draw_size_range:
  "draw_size m g = Inr (s, g') \<Longrightarrow> 1 \<le> s \<and> (m \<noteq> 1 \<longrightarrow> s < m)"
  by (auto simp: draw_size_def split: if_splits dest: randint_range)

lemma draw_size_fails: "m \<le> 0 \<Longrightarrow> draw_size m g = Inl ValueError"
  by (simp add: draw_size_def randint_empty)

lemma resolve_max_size_ok:
  "ax \<noteq> [] \<Longrightarrow> \<exists>m0. resolve_max_size fpow max_size n ax = Inr m0"
  by (simp add: resolve_max_size_def split: option.splits)

lemma Crossover_window_same:
  assumes "wf_array a" "Crossover_window fpow axis max_size g a a = Inr (r, g')"
  shows "r = a"
  using assms
  by (auto simp: Crossover_window_def Let_def set_window_same split: sum.splits prod.splits)

lemma Crossover_window_fails:
  assumes sh: "shape a = shape b"
    and ax: "ax = (case axis of None \<Rightarrow> map int [0..<length (shape a)] | Some t \<Rightarrow> t)"
    and valid: "\<forall>t\<in>set ax. - int (length (shape a)) \<le> t \<and> t < int (length (shape a))"
    and one: "\<exists>t\<in>set ax. shape a ! nat (t mod int (length (shape a))) \<le> 1"
  shows "Crossover_window fpow axis max_size g a b = Inl ValueError"
proof -
  let ?f = "\<lambda>t. int (shape a ! nat (t mod int (length (shape a)))) - 1"
  from one obtain t where t: "t \<in> set ax" "shape a ! nat (t mod int (length (shape a))) \<le> 1" by blast
  then have ne: "ax \<noteq> []" by auto
  from resolve_max_size_ok[OF ne] obtain m0 where
    m0: "resolve_max_size fpow max_size (array_size a) ax = Inr m0" by blast
  let ?m = "Min (insert m0 (?f ` set ax))"
  have cl: "clamp_max_size m0 (shape a) ax = Inr ?m"
    using valid ne by (rule clamp_max_size_valid)
  have "?m \<le> ?f t" using t(1) by (intro Min_le) auto
  also have "\<dots> \<le> 0" using t(2) by simp
  finally have "?m \<le> 0" .
  then have "draw_size ?m g = Inl ValueError" by (rule draw_size_fails)
  then show ?thesis
    using sh m0 cl ax[symmetric] by (simp add: Crossover_window_def)
qed



lemma draw_size_ok: "2 \<le> m \<Longrightarrow> \<exists>sz g1. draw_size m g = Inr (sz, g1)"
  using randint_ok[of 1 m g] by (auto simp: draw_size_def)

lemma slice_bound_le:
  assumes "x \<le> int n - 1" "1 \<le> n"
  shows "slice_bound n x \<le> n - 1"
  using assms by (auto simp: slice_bound_def)

lemma make_slices_stop:
  assumes "make_slices shp axes sz g = Inr (sl, g')" "t < length shp" "int t \<in> set axes"
  shows "snd (sl ! t) \<le> int (shp ! t) - 1" "2 \<le> shp ! t"
  using make_slices_loop_Inr[of 0 shp axes sz g sl g'] assms
  by (auto simp: make_slices_def)

lemma last_not_in_window:
  assumes m: "make_slices shp axes sz g = Inr (sl, g')" and t: "t < length shp" "int t \<in> set axes"
    and i: "idx ! t = shp ! t - 1"
  shows "\<not> in_window sl shp idx"
proof
  assume "in_window sl shp idx"
  then have "idx ! t < snd (slice_indices (sl ! t) (shp ! t))"
    using t(1) by (simp add: in_window_nth)
  moreover have "slice_bound (shp ! t) (snd (sl ! t)) \<le> shp ! t - 1"
    using make_slices_stop[OF m t] by (intro slice_bound_le) simp_all
  ultimately show False using i by (simp add: slice_indices_def)
qed

lemma Crossover_window_succeeds:
  assumes sh: "shape a = shape b"
    and ax: "ax = (case axis of None \<Rightarrow> map int [0..<length (shape a)] | Some t \<Rightarrow> t)"
    and ne: "ax \<noteq> []"
    and valid: "\<forall>t\<in>set ax. - int (length (shape a)) \<le> t \<and> t < int (length (shape a))"
    and two: "\<forall>t\<in>set ax. 2 \<le> shape a ! nat (t mod int (length (shape a)))"
    and m0: "resolve_max_size fpow max_size (array_size a) ax = Inr m0" "1 \<le> m0"
  shows "\<exists>r g'. Crossover_window fpow axis max_size g a b = Inr (r, g')"
proof -
  let ?n = "length (shape a)"
  let ?f = "\<lambda>t. int (shape a ! nat (t mod int ?n)) - 1"
  let ?m = "Min (insert m0 (?f ` set ax))"
  have cl: "clamp_max_size m0 (shape a) ax = Inr ?m"
    using valid ne by (rule clamp_max_size_valid)
  have ge: "1 \<le> ?m" using m0(2) two by (subst Min_ge_iff) auto
  have le: "?m \<le> ?f t" if "t \<in> set ax" for t using that by (intro Min_le) auto
  have "\<exists>sz g1. draw_size ?m g = Inr (sz, g1) \<and> 1 \<le> sz \<and> sz \<le> ?m"
  proof (cases "?m = 1")
    case True
    then show ?thesis by (simp add: draw_size_def)
  next
    case False
    with ge have "2 \<le> ?m" by linarith
    from draw_size_ok[OF this, of g] obtain sz g1 where d: "draw_size ?m g = Inr (sz, g1)" by blast
    from draw_size_range[OF d] False have "1 \<le> sz" "sz < ?m" by simp_all
    with d show ?thesis by auto
  qed
  then obtain sz g1 where d: "draw_size ?m g = Inr (sz, g1)" and sz: "1 \<le> sz" "sz \<le> ?m" by blast
  have "\<forall>j<length (shape a). int (0 + j) \<in> set ax \<longrightarrow> 2 \<le> shape a ! j \<and> sz < int (shape a ! j)"
  proof (intro allI impI)
    fix j assume j: "j < length (shape a)" and t: "int (0 + j) \<in> set ax"
    have md: "nat (int j mod int ?n) = j" using j by simp
    from two t md have a: "2 \<le> shape a ! j" by fastforce
    from le[of "int j"] t md have "?m \<le> int (shape a ! j) - 1" by simp
    with sz a show "2 \<le> shape a ! j \<and> sz < int (shape a ! j)" by linarith
  qed
  from make_slices_loop_succeeds[OF this, of g1] obtain sl g2 where
    "make_slices (shape a) ax sz g1 = Inr (sl, g2)" unfolding make_slices_def by blast
  then show ?thesis
    using sh m0(1) cl d ax[symmetric] by (simp add: Crossover_window_def)
qed

section \<open>The rounded exponent of the default \<open>max_size\<close>\<close>





lemma cube_root_rounded_upper: "(35287552::real) powr (6004799503160661 / 18014398509481984) < 328"
proof -
  have "(35287552::real) = 328 powr 3" by simp
  then have "(35287552::real) powr (6004799503160661 / 18014398509481984)
      = (328 powr 3) powr (6004799503160661 / 18014398509481984)" by simp
  also have "\<dots> = 328 powr (3 * (6004799503160661 / 18014398509481984))" by (rule powr_powr)
  also have "\<dots> < 328 powr 1" by (rule powr_less_mono) simp_all
  finally show ?thesis by simp
qed

lemma small_root_bound:
  fixes c :: real
  assumes c: "1 < c" and N: "0 < N" and b: "1 + real N * (c / d - 1) \<ge> c" and d: "0 < d" "d \<le> c"
  shows "c powr (1 / real N) \<le> c / d"
proof -
  have x: "-1 \<le> c / d - 1" using c d by simp
  have "c \<le> 1 + real N * (c / d - 1)" using b by simp
  also have "\<dots> \<le> (1 + (c / d - 1)) ^ N" using x by (rule Bernoulli_inequality)
  finally have le: "c \<le> (c / d) ^ N" by simp
  have pos: "0 < c / d" using c d by simp
  have "c powr (1 / real N) \<le> ((c / d) ^ N) powr (1 / real N)"
    using le c by (intro powr_mono2) simp_all
  also have "((c / d) ^ N) powr (1 / real N) = ((c / d) powr real N) powr (1 / real N)"
    using pos by (simp add: powr_realpow)
  also have "\<dots> = (c / d) powr (real N * (1 / real N))" by (rule powr_powr)
  also have "\<dots> = c / d" using N c d by simp
  finally show ?thesis .
qed

lemma cube_root_rounded_lower:
  "655 / 2 \<le> (35287552::real) powr (6004799503160661 / 18014398509481984)"
proof -
  have "(35287552::real) = 328 powr 3" by simp
  then have "(35287552::real) powr (6004799503160661 / 18014398509481984)
      = (328 powr 3) powr (6004799503160661 / 18014398509481984)" by simp
  also have "\<dots> = 328 powr (3 * (6004799503160661 / 18014398509481984))" by (rule powr_powr)
  also have "3 * (6004799503160661 / 18014398509481984) = (1::real) - 1 / real (18014398509481984::nat)"
    by simp
  also have "328 powr (1 - 1 / real (18014398509481984::nat))
      = 328 powr 1 / 328 powr (1 / real (18014398509481984::nat))" by (rule powr_diff)
  finally have eq: "(35287552::real) powr (6004799503160661 / 18014398509481984)
      = 328 / 328 powr (1 / real (18014398509481984::nat))" by simp
  have "(328::real) powr (1 / real (18014398509481984::nat)) \<le> 328 / (655 / 2)"
    by (rule small_root_bound) simp_all
  moreover have "0 < (328::real) powr (1 / real (18014398509481984::nat))" by simp
  ultimately have "655 / 2 \<le> 328 / (328::real) powr (1 / real (18014398509481984::nat))"
    by (simp add: field_simps)
  then show ?thesis using eq by simp
qed

lemma cube_root_rounded_floor:
  "py_int ((35287552::real) powr (6004799503160661 / 18014398509481984)) = 327"
proof -
  let ?v = "(35287552::real) powr (6004799503160661 / 18014398509481984)"
  have "327 \<le> ?v" using cube_root_rounded_lower by simp
  moreover have "?v < 328" by (rule cube_root_rounded_upper)
  ultimately have "\<lfloor>?v\<rfloor> = 327" by (simp add: floor_eq_iff)
  moreover have "0 \<le> ?v" by simp
  ultimately show ?thesis by (simp add: py_int_def)
qed





section \<open>Properties of \<open>np.roll\<close>\<close>

lemma roll_source_valid:
  assumes "valid_index shp idx"
  shows "valid_index shp (roll_source shp off idx)"
proof -
  have "nat ((int (idx ! j) - off j) mod int (shp ! j)) < shp ! j" if "j < length shp" for j
  proof -
    have "0 < int (shp ! j)" using assms that by (auto simp: valid_index_nth)
    then have "(int (idx ! j) - off j) mod int (shp ! j) < int (shp ! j)"
      and "0 \<le> (int (idx ! j) - off j) mod int (shp ! j)"
      by (rule pos_mod_bound, rule pos_mod_sign)
    then show ?thesis by (simp add: nat_less_iff)
  qed
  then show ?thesis by (simp add: valid_index_nth roll_source_def)
qed

lemma shape_roll_by [simp]: "shape (roll_by a off) = shape a"
  by (simp add: roll_by_def)

lemma wf_roll_by [simp]: "wf_array (roll_by a off)"
  by (simp add: roll_by_def)

lemma item_roll_by:
  "valid_index (shape a) idx \<Longrightarrow> item (roll_by a off) idx = item a (roll_source (shape a) off idx)"
  by (simp add: roll_by_def item_tabulate)

lemma roll_source_compose:
  assumes "valid_index shp idx"
  shows "roll_source shp off1 (roll_source shp off2 idx) = roll_source shp (\<lambda>j. off1 j + off2 j) idx"
proof -
  have "nat ((int (nat ((int (idx ! j) - off2 j) mod int (shp ! j))) - off1 j) mod int (shp ! j))
        = nat ((int (idx ! j) - (off1 j + off2 j)) mod int (shp ! j))" if "j < length shp" for j
  proof -
    have pos: "0 < int (shp ! j)" using assms that by (auto simp: valid_index_nth)
    have "0 \<le> (int (idx ! j) - off2 j) mod int (shp ! j)" using pos by (rule pos_mod_sign)
    then have "int (nat ((int (idx ! j) - off2 j) mod int (shp ! j))) = (int (idx ! j) - off2 j) mod int (shp ! j)"
      by simp
    moreover have "((int (idx ! j) - off2 j) mod int (shp ! j) - off1 j) mod int (shp ! j)
        = (int (idx ! j) - off2 j - off1 j) mod int (shp ! j)"
      by (rule mod_diff_left_eq)
    ultimately show ?thesis by (simp add: algebra_simps)
  qed
  then show ?thesis by (simp add: roll_source_def)
qed

lemma roll_source_id:
  assumes "valid_index shp idx" "\<forall>j<length shp. off j mod int (shp ! j) = 0"
  shows "roll_source shp off idx = idx"
proof (rule nth_equalityI)
  show "length (roll_source shp off idx) = length idx"
    using assms(1) by (simp add: roll_source_def valid_index_nth)
next
  fix j assume "j < length (roll_source shp off idx)"
  then have j: "j < length shp" by (simp add: roll_source_def)
  have lt: "idx ! j < shp ! j" using assms(1) j by (simp add: valid_index_nth)
  have "(int (idx ! j) - off j) mod int (shp ! j) = (int (idx ! j) - off j mod int (shp ! j)) mod int (shp ! j)"
    by (simp add: mod_diff_right_eq)
  also have "\<dots> = int (idx ! j) mod int (shp ! j)" using assms(2) j by simp
  also have "\<dots> = int (idx ! j)" using lt by simp
  finally show "roll_source shp off idx ! j = idx ! j" using j by (simp add: roll_source_def)
qed

lemma roll_by_compose:
  "roll_by (roll_by a off2) off1 = roll_by a (\<lambda>j. off1 j + off2 j)"
proof -
  have "roll_by (roll_by a off2) off1
        = tabulate (shape a) (\<lambda>idx. item (roll_by a off2) (roll_source (shape a) off1 idx))"
    by (simp add: roll_by_def)
  also have "\<dots> = tabulate (shape a) (\<lambda>idx. item a (roll_source (shape a) (\<lambda>j. off1 j + off2 j) idx))"
  proof (rule tabulate_cong)
    fix idx assume v: "valid_index (shape a) idx"
    have "item (roll_by a off2) (roll_source (shape a) off1 idx)
          = item a (roll_source (shape a) off2 (roll_source (shape a) off1 idx))"
      using v by (simp add: item_roll_by roll_source_valid)
    also have "\<dots> = item a (roll_source (shape a) (\<lambda>j. off2 j + off1 j) idx)"
      using v by (simp add: roll_source_compose)
    finally show "item (roll_by a off2) (roll_source (shape a) off1 idx)
          = item a (roll_source (shape a) (\<lambda>j. off1 j + off2 j) idx)"
      by (simp add: add.commute)
  qed
  finally show ?thesis by (simp add: roll_by_def)
qed

lemma roll_by_id:
  assumes "wf_array a" "\<forall>j<length (shape a). off j mod int (shape a ! j) = 0"
  shows "roll_by a off = a"
  unfolding roll_by_def using assms
  by (intro tabulate_eq_self) (simp_all add: roll_source_id)

lemma axis_offset_Nil [simp]: "axis_offset n v [] j = 0" "axis_offset n [] axes j = 0"
  by (simp_all add: axis_offset_def)

lemma axis_offset_Cons:
  "axis_offset n (sh # v) (ax # axes) j
     = (if ax mod int n = int j then sh else 0) + axis_offset n v axes j"
  by (simp add: axis_offset_def)

lemma axis_offset_inverse:
  "length v = length axes \<Longrightarrow>
   (axis_offset n v axes j
    + axis_offset n (map2 (\<lambda>ax sh. int (shp ! nat (ax mod int n)) - sh) axes v) axes j)
     mod int (shp ! j) = 0"
proof (induction axes arbitrary: v)
  case Nil
  then show ?case by simp
next
  case (Cons ax axes)
  then obtain sh v' where v: "v = sh # v'" "length v' = length axes" by (cases v) auto
  let ?rest = "axis_offset n v' axes j
    + axis_offset n (map2 (\<lambda>ax sh. int (shp ! nat (ax mod int n)) - sh) axes v') axes j"
  have ih: "?rest mod int (shp ! j) = 0" using Cons.IH[OF v(2)] .
  show ?case
  proof (cases "ax mod int n = int j")
    case True
    then have "axis_offset n v (ax # axes) j
      + axis_offset n (map2 (\<lambda>ax sh. int (shp ! nat (ax mod int n)) - sh) (ax # axes) v) (ax # axes) j
      = int (shp ! j) + ?rest"
      using v by (simp add: axis_offset_Cons)
    then show ?thesis using ih by simp
  next
    case False
    then have "axis_offset n v (ax # axes) j
      + axis_offset n (map2 (\<lambda>ax sh. int (shp ! nat (ax mod int n)) - sh) (ax # axes) v) (ax # axes) j
      = ?rest"
      using v by (simp add: axis_offset_Cons)
    then show ?thesis using ih by simp
  qed
qed

lemma np_roll_valid:
  "\<forall>ax\<in>set axes. - int (length (shape a)) \<le> ax \<and> ax < int (length (shape a)) \<Longrightarrow>
   np_roll a v axes = Inr (roll_by a (axis_offset (length (shape a)) v axes))"
  by (simp add: np_roll_def list_all_iff)

lemma np_roll_inverse:
  assumes wf: "wf_array a" and len: "length v = length axes"
    and valid: "\<forall>ax\<in>set axes. - int (length (shape a)) \<le> ax \<and> ax < int (length (shape a))"
  shows "\<exists>r. np_roll a v axes = Inr r \<and>
     np_roll r (map2 (\<lambda>ax sh. int (shape a ! nat (ax mod int (length (shape a)))) - sh) axes v) axes
       = Inr a"
proof -
  let ?n = "length (shape a)"
  let ?v' = "map2 (\<lambda>ax sh. int (shape a ! nat (ax mod int ?n)) - sh) axes v"
  let ?r = "roll_by a (axis_offset ?n v axes)"
  have r: "np_roll a v axes = Inr ?r" using valid by (rule np_roll_valid)
  have "np_roll ?r ?v' axes = Inr (roll_by ?r (axis_offset ?n ?v' axes))"
    using valid np_roll_valid[of axes ?r ?v'] by simp
  also have "roll_by ?r (axis_offset ?n ?v' axes)
      = roll_by a (\<lambda>j. axis_offset ?n ?v' axes j + axis_offset ?n v axes j)"
    by (rule roll_by_compose)
  also have "\<dots> = a"
  proof (rule roll_by_id[OF wf], intro allI impI)
    fix j assume "j < ?n"
    show "(axis_offset ?n ?v' axes j + axis_offset ?n v axes j) mod int (shape a ! j) = 0"
      using axis_offset_inverse[OF len, of ?n j "shape a"] by (simp add: add.commute)
  qed
  finally show ?thesis using r by blast
qed

lemma draw_shifts_Inr:
  "draw_shifts shp axes g = Inr (v, g') \<Longrightarrow>
     length v = length axes \<and>
     (\<forall>ax\<in>set axes. - int (length shp) \<le> ax \<and> ax < int (length shp)) \<and>
     (\<forall>k<length axes. 0 \<le> v ! k \<and> v ! k < int (shp ! nat (axes ! k mod int (length shp))))"
proof (induction axes arbitrary: v g)
  case Nil
  then show ?case by simp
next
  case (Cons ax axes)
  from Cons.prems obtain s x g1 vs where
    p: "py_index shp ax = Inr s" and r: "randint 0 (int s) g = Inr (x, g1)"
    and rest: "draw_shifts shp axes g1 = Inr (vs, g')" and v: "v = x # vs"
    by (auto split: sum.splits prod.splits)
  from p have ok: "- int (length shp) \<le> ax \<and> ax < int (length shp)"
    by (auto simp: py_index_def split: if_splits)
  with p have s: "s = shp ! nat (ax mod int (length shp))"
    using py_index_valid[of shp ax] by simp
  from randint_range[OF r] have x: "0 \<le> x" "x < int s" by simp_all
  note ih = Cons.IH[OF rest]
  have "\<forall>k<length (ax # axes). 0 \<le> v ! k \<and> v ! k < int (shp ! nat ((ax # axes) ! k mod int (length shp)))"
  proof (intro allI impI)
    fix k assume "k < length (ax # axes)"
    then show "0 \<le> v ! k \<and> v ! k < int (shp ! nat ((ax # axes) ! k mod int (length shp)))"
      using ih x s v by (cases k) simp_all
  qed
  then show ?case using ih ok v by simp
qed

section \<open>Properties of TunedTranslation\<close>

lemma length_np_roll_flat [simp]: "length (data (np_roll_flat w sh)) = length (data w)"
  by (simp add: np_roll_flat_def roll_by_def tabulate_def)

lemma shape_np_roll_flat [simp]: "shape (np_roll_flat w sh) = shape w"
  by (simp add: np_roll_flat_def)

lemma np_roll_flat_nth:
  assumes "k < length (data w)"
  shows "data (np_roll_flat w sh) ! k = data w ! nat ((int k - sh) mod int (length (data w)))"
  using assms
  by (simp add: np_roll_flat_def roll_by_def tabulate_def item_def roll_source_def)

lemma np_roll_flat_forward:
  assumes "i < length (data w)"
  shows "data (np_roll_flat w sh) ! nat ((int i + sh) mod int (length (data w))) = data w ! i"
proof -
  let ?n = "int (length (data w))"
  have pos: "0 < ?n" using assms by (cases "data w") simp_all
  have nn: "0 \<le> (int i + sh) mod ?n" and lt: "(int i + sh) mod ?n < ?n"
    using pos by (rule pos_mod_sign, rule pos_mod_bound)
  then have k: "nat ((int i + sh) mod ?n) < length (data w)" by (simp add: nat_less_iff)
  have "(int (nat ((int i + sh) mod ?n)) - sh) mod ?n = ((int i + sh) mod ?n - sh) mod ?n"
    using nn by simp
  also have "\<dots> = (int i + sh - sh) mod ?n" by (rule mod_diff_left_eq)
  also have "\<dots> = int i" using assms by simp
  finally show ?thesis using np_roll_flat_nth[OF k, of sh] by simp
qed

lemma axis_offset_single:
  "axis_offset n [sh] [axis] j = (if axis mod int n = int j then sh else 0)"
  by (simp add: axis_offset_def)

lemma roll_single_forward:
  assumes v: "valid_index shp idx" and t: "t < length shp"
  shows "roll_source shp (\<lambda>j. if j = t then sh else 0)
           (idx[t := nat ((int (idx ! t) + sh) mod int (shp ! t))]) = idx"
proof (rule nth_equalityI)
  show "length (roll_source shp (\<lambda>j. if j = t then sh else 0)
           (idx[t := nat ((int (idx ! t) + sh) mod int (shp ! t))])) = length idx"
    using v by (simp add: roll_source_def valid_index_nth)
next
  fix j assume "j < length (roll_source shp (\<lambda>j. if j = t then sh else 0)
           (idx[t := nat ((int (idx ! t) + sh) mod int (shp ! t))]))"
  then have j: "j < length shp" by (simp add: roll_source_def)
  have len: "length idx = length shp" and lt: "idx ! j < shp ! j"
    using v j by (simp_all add: valid_index_nth)
  let ?s = "int (shp ! j)"
  have pos: "0 < ?s" using lt by simp
  show "roll_source shp (\<lambda>j. if j = t then sh else 0)
           (idx[t := nat ((int (idx ! t) + sh) mod int (shp ! t))]) ! j = idx ! j"
  proof (cases "j = t")
    case True
    have nn: "0 \<le> (int (idx ! j) + sh) mod ?s" using pos by (rule pos_mod_sign)
    have "(int (nat ((int (idx ! j) + sh) mod ?s)) - sh) mod ?s = ((int (idx ! j) + sh) mod ?s - sh) mod ?s"
      using nn by simp
    also have "\<dots> = (int (idx ! j) + sh - sh) mod ?s" by (rule mod_diff_left_eq)
    also have "\<dots> = int (idx ! j)" using lt by simp
    finally show ?thesis using True j len by (simp add: roll_source_def)
  next
    case False
    then show ?thesis using j len lt by (simp add: roll_source_def)
  qed
qed

lemma update_valid:
  assumes "valid_index shp idx" "t < length shp" "k < shp ! t"
  shows "valid_index shp (idx[t := k])"
  using assms by (auto simp: valid_index_nth nth_list_update)

lemma nth_upto_from: "int k < j - i + 1 \<Longrightarrow> [i..j] ! k = i + int k"
proof (induction k arbitrary: i)
  case 0
  then show ?case by (simp add: upto.simps)
next
  case (Suc k)
  then have "i \<le> j" by simp
  then have "[i..j] = i # [i + 1..j]" by (simp add: upto.simps)
  moreover have "[i + 1..j] ! k = i + 1 + int k" using Suc.prems by (intro Suc.IH) simp
  ultimately show ?case by simp
qed

lemma py_index_Inr:
  assumes "py_index xs t = Inr x"
  shows "- int (length xs) \<le> t" "t < int (length xs)" "x = xs ! nat (t mod int (length xs))"
    "nat (t mod int (length xs)) < length xs"
proof -
  from assms show b: "- int (length xs) \<le> t" "t < int (length xs)"
    by (auto simp: py_index_def split: if_splits)
  with assms show "x = xs ! nat (t mod int (length xs))"
    using py_index_valid[of xs t] by simp
  from b have "0 < int (length xs)" by linarith
  then have "t mod int (length xs) < int (length xs)" "0 \<le> t mod int (length xs)"
    by (rule pos_mod_bound, rule pos_mod_sign)
  then show "nat (t mod int (length xs)) < length xs" by (simp add: nat_less_iff)
qed

lemma axis_offset_single_fun:
  assumes "- int n \<le> axis" "axis < int n"
  shows "roll_by a (axis_offset n [sh] [axis])
       = roll_by a (\<lambda>j. if j = nat (axis mod int n) then sh else 0)"
proof -
  have "0 < int n" using assms by linarith
  then have "0 \<le> axis mod int n" by (rule pos_mod_sign)
  then have "(axis mod int n = int j) = (j = nat (axis mod int n))" for j by auto
  then have "axis_offset n [sh] [axis] = (\<lambda>j. if j = nat (axis mod int n) then sh else 0)"
    by (simp add: axis_offset_single fun_eq_iff)
  then show ?thesis by simp
qed

lemma TunedTranslation_init_choices:
  "TunedTranslation_init w axis shp = Inr c \<Longrightarrow>
     \<exists>ext. py_index shp axis = Inr ext \<and> choices c = [1..int ext - 1]"
  by (auto simp: TunedTranslation_init_def Choice_init_def split: sum.splits)

section \<open>Properties of LocalGaussian\<close>


lemma shape_zeros [simp]: "shape (zeros shp) = shp"
  by (simp add: zeros_def)

lemma wf_zeros [simp]: "wf_array (zeros shp)"
  by (simp add: zeros_def wf_array_def)




lemma shape_LocalGaussian_data [simp]: "shape (LocalGaussian_data shp slices noise) = shp"
  by (simp add: LocalGaussian_data_def Let_def)

lemma length_LocalGaussian_data [simp]:
  "length (data (LocalGaussian_data shp slices noise)) = prod_list shp"
  by (simp add: LocalGaussian_data_def Let_def set_window_def tabulate_def)


section \<open>Properties of the operators on the store\<close>

text \<open>
  A call allocates new objects at the end of the heap and writes only into objects it has
  allocated itself; the parameters are rebound by the last statement alone.
\<close>

lemma Crossover_window_slices:
  "Crossover_window fpow axis max_size g a b =
     (case Crossover_slices fpow axis max_size g (shape a) (shape b) (array_size a) of
        Inl e \<Rightarrow> Inl e
      | Inr (slices, g2) \<Rightarrow> Inr (set_window a slices (get_window b slices), g2))"
  by (auto simp: Crossover_window_def Crossover_slices_def Let_def split: sum.splits prod.splits)

lemma alloc_frame:
  "alloc a s = (r, s') \<Longrightarrow>
     r = length (heap s) \<and> heap s' = heap s @ [a] \<and> params s' = params s \<and> spectral s' = spectral s"
  by (auto simp: alloc_def)

lemma alloc_spectral_frame:
  "alloc_spectral a s = (r, s') \<Longrightarrow>
     r = length (spectral s) \<and> spectral s' = spectral s @ [a] \<and> params s' = params s \<and>
     heap s' = heap s"
  by (auto simp: alloc_spectral_def)

lemma copy_and_merge_frame:
  assumes "copy_and_merge h a b slices = (r, h')"
  shows "r = length h" "\<exists>new. h' = h @ new"
  using assms by (auto simp: copy_and_merge_def copy_array_def setitem_window_def)

lemma copy_and_merge_value:
  assumes "copy_and_merge h a b slices = (r, h')" "a < length h" "b < length h"
  shows "h' ! r = set_window (h ! a) slices (get_window (h ! b) slices)"
  using assms
  by (auto simp: copy_and_merge_def copy_array_def setitem_window_def nth_append)

lemma Crossover_apply_array_st_frame:
  assumes "Crossover_apply_array_st fpow fwd bwd axis max_size fft g refs s = (out, s')"
  shows "params s' = params s \<and> (\<exists>new. heap s' = heap s @ new)"
proof (cases "length refs \<noteq> 2")
  case True
  with assms show ?thesis by (simp add: Crossover_apply_array_st_def)
next
  case len: False
  show ?thesis
  proof (cases fft)
    case False
    show ?thesis
    proof (cases "Crossover_slices fpow axis max_size g (shape (heap s ! (refs ! 0)))
                (shape (heap s ! (refs ! 1))) (array_size (heap s ! (refs ! 0)))")
      case (Inl e)
      with assms len False show ?thesis by (simp add: Crossover_apply_array_st_def)
    next
      case (Inr p)
      obtain slices g2 where p: "p = (slices, g2)" by (cases p)
      obtain r h where m: "copy_and_merge (heap s) (refs ! 0) (refs ! 1) slices = (r, h)"
        by (cases "copy_and_merge (heap s) (refs ! 0) (refs ! 1) slices")
      from assms len False Inr p m have "s' = s\<lparr>heap := h\<rparr>"
        by (simp add: Crossover_apply_array_st_def)
      with copy_and_merge_frame(2)[OF m] show ?thesis by simp
    qed
  next
    case True
    show ?thesis
    proof (cases axis)
      case None
      with assms len True show ?thesis by (simp add: Crossover_apply_array_st_def)
    next
      case (Some t)
      obtain fa s1 where a1: "alloc_spectral (fwd t (heap s ! (refs ! 0))) s = (fa, s1)"
        by (cases "alloc_spectral (fwd t (heap s ! (refs ! 0))) s")
      obtain fb s2 where a2: "alloc_spectral (fwd t (heap s1 ! (refs ! 1))) s1 = (fb, s2)"
        by (cases "alloc_spectral (fwd t (heap s1 ! (refs ! 1))) s1")
      from alloc_spectral_frame[OF a1] alloc_spectral_frame[OF a2]
      have f2: "params s2 = params s" "heap s2 = heap s" by simp_all
      show ?thesis
      proof (cases "Crossover_slices fpow axis max_size g (shape (spectral s2 ! fa))
                               (shape (spectral s2 ! fb)) (array_size (spectral s2 ! fa))")
        case (Inl e)
        with assms len True Some a1 a2 have "s' = s2" by (simp add: Crossover_apply_array_st_def)
        with f2 show ?thesis by simp
      next
        case (Inr p)
        obtain slices g2 where p: "p = (slices, g2)" by (cases p)
        obtain r sp where m: "copy_and_merge (spectral s2) fa fb slices = (r, sp)"
          by (cases "copy_and_merge (spectral s2) fa fb slices")
        obtain out s3 where a3: "alloc (bwd t (sp ! r)) (s2\<lparr>spectral := sp\<rparr>) = (out, s3)"
          by (cases "alloc (bwd t (sp ! r)) (s2\<lparr>spectral := sp\<rparr>)")
        from assms len True Some a1 a2 Inr p m a3 have "s' = s3"
          by (simp add: Crossover_apply_array_st_def)
        with alloc_frame[OF a3] f2 show ?thesis by simp
      qed
    qed
  qed
qed

lemma Crossover_apply_failure:
  assumes "Crossover_apply fpow fwd bwd axis max_size fft g s = (Inl e, s')"
  shows "params s' = params s \<and> (\<exists>new. heap s' = heap s @ new)"
proof -
  obtain out s1 where c: "Crossover_apply_array_st fpow fwd bwd axis max_size fft g
      (map value_ref (params s)) s = (out, s1)"
    by (cases "Crossover_apply_array_st fpow fwd bwd axis max_size fft g (map value_ref (params s)) s")
  from assms c have "s' = s1"
    by (auto simp: Crossover_apply_def Let_def split: sum.splits prod.splits if_splits)
  with Crossover_apply_array_st_frame[OF c] show ?thesis by simp
qed

lemma Crossover_apply_frame:
  assumes "Crossover_apply fpow fwd bwd axis max_size fft g s = (out, s')"
  shows "\<exists>new. heap s' = heap s @ new"
proof -
  obtain o1 s1 where c: "Crossover_apply_array_st fpow fwd bwd axis max_size fft g
      (map value_ref (params s)) s = (o1, s1)"
    by (cases "Crossover_apply_array_st fpow fwd bwd axis max_size fft g (map value_ref (params s)) s")
  from Crossover_apply_array_st_frame[OF c] obtain new where n: "heap s1 = heap s @ new" by blast
  from assms c have "heap s' = heap s1 \<or> (\<exists>x. heap s' = heap s1 @ [x])"
    by (auto simp: Crossover_apply_def Let_def alloc_def split: sum.splits prod.splits if_splits)
  with n show ?thesis by auto
qed


lemma Translation_apply_array_st_frame:
  assumes "Translation_apply_array_st axis g refs s = (out, s')"
  shows "params s' = params s \<and> (\<exists>new. heap s' = heap s @ new)"
  using assms
  by (auto simp: Translation_apply_array_st_def alloc_def split: if_splits option.splits sum.splits prod.splits)

lemma TunedTranslation_apply_array_st_frame:
  assumes "TunedTranslation_apply_array_st axis shp shift refs s = (out, s')"
  shows "params s' = params s \<and> (\<exists>new. heap s' = heap s @ new)"
  using assms
  by (auto simp: TunedTranslation_apply_array_st_def Let_def alloc_def
      split: if_splits sum.splits prod.splits)

lemma Mutation_apply_failure:
  assumes "Mutation_apply (out, s1) = (Inl e, s')"
  shows "s' = s1"
  using assms by (auto simp: Mutation_apply_def split: sum.splits prod.splits if_splits)

lemma Mutation_apply_frame:
  assumes "Mutation_apply (out, s1) = (res, s')"
  shows "heap s' = heap s1"
  using assms by (auto simp: Mutation_apply_def split: sum.splits prod.splits if_splits)

lemma Translation_apply_failure:
  assumes "Translation_apply axis g s = (Inl e, s')"
  shows "params s' = params s \<and> (\<exists>new. heap s' = heap s @ new)"
proof -
  obtain out s1 where c: "Translation_apply_array_st axis g (map value_ref (params s)) s = (out, s1)"
    by (cases "Translation_apply_array_st axis g (map value_ref (params s)) s")
  from assms c have "s' = s1" unfolding Translation_apply_def by (auto dest: Mutation_apply_failure)
  with Translation_apply_array_st_frame[OF c] show ?thesis by simp
qed

lemma Translation_apply_frame:
  assumes "Translation_apply axis g s = (out, s')"
  shows "\<exists>new. heap s' = heap s @ new"
proof -
  obtain o1 s1 where c: "Translation_apply_array_st axis g (map value_ref (params s)) s = (o1, s1)"
    by (cases "Translation_apply_array_st axis g (map value_ref (params s)) s")
  from assms c have "heap s' = heap s1" unfolding Translation_apply_def by (auto dest: Mutation_apply_frame)
  with Translation_apply_array_st_frame[OF c] show ?thesis by simp
qed

lemma TunedTranslation_apply_failure:
  assumes "TunedTranslation_apply axis shp shift s = (Inl e, s')"
  shows "params s' = params s \<and> (\<exists>new. heap s' = heap s @ new)"
proof -
  obtain out s1 where c: "TunedTranslation_apply_array_st axis shp shift (map value_ref (params s)) s = (out, s1)"
    by (cases "TunedTranslation_apply_array_st axis shp shift (map value_ref (params s)) s")
  from assms c have "s' = s1" unfolding TunedTranslation_apply_def by (auto dest: Mutation_apply_failure)
  with TunedTranslation_apply_array_st_frame[OF c] show ?thesis by simp
qed

lemma TunedTranslation_apply_frame:
  assumes "TunedTranslation_apply axis shp shift s = (out, s')"
  shows "\<exists>new. heap s' = heap s @ new"
proof -
  obtain o1 s1 where c: "TunedTranslation_apply_array_st axis shp shift (map value_ref (params s)) s = (o1, s1)"
    by (cases "TunedTranslation_apply_array_st axis shp shift (map value_ref (params s)) s")
  from assms c have "heap s' = heap s1" unfolding TunedTranslation_apply_def by (auto dest: Mutation_apply_frame)
  with TunedTranslation_apply_array_st_frame[OF c] show ?thesis by simp
qed

lemma setitem_fresh:
  "setitem_window (length h) slices v (h @ [x]) = h @ [set_window x slices v]"
  by (simp add: setitem_window_def)

lemma internal_set_standardized_data_frame:
  "heap (internal_set_standardized_data to_std from_std t d r s)
     = heap s @ [\<lparr>shape = shape (heap s ! value_ref (params s ! r)),
                   data = map from_std (map2 (+) (standardized_data to_std (params s ! r) s) d)\<rparr>]"
  "params (internal_set_standardized_data to_std from_std t d r s)
     = (params s)[t := set_value (params s ! t) (length (heap s))]"
  by (simp_all add: internal_set_standardized_data_def Let_def alloc_def)

lemma LocalGaussian_apply_failure:
  assumes "LocalGaussian_apply to_std from_std axes sz g s = (Inl e, s')"
  shows "params s' = params s \<and> (\<exists>new. heap s' = heap s @ new)"
  using assms
  by (auto simp: LocalGaussian_apply_def Let_def alloc_def split: if_splits sum.splits prod.splits)

lemma LocalGaussian_apply_frame:
  assumes "LocalGaussian_apply to_std from_std axes sz g s = (out, s')"
  shows "\<exists>new. heap s' = heap s @ new"
  using assms
  by (auto simp: LocalGaussian_apply_def Let_def alloc_def setitem_fresh
      internal_set_standardized_data_frame split: if_splits sum.splits prod.splits)

text \<open>The store-level \<open>_apply_array\<close> functions compute the arrays of the pure ones.\<close>

lemma Crossover_apply_array_st_refines:
  assumes refs: "\<forall>r\<in>set refs. r < length (heap s)"
    and run: "Crossover_apply_array_st fpow fwd bwd axis max_size fft g refs s = (out, s')"
  shows "Crossover_apply_array fpow fwd bwd axis max_size fft g (map (\<lambda>r. heap s ! r) refs)
           = (case out of Inl e \<Rightarrow> Inl e | Inr (r, g') \<Rightarrow> Inr (heap s' ! r, g'))"
proof (cases "length refs \<noteq> 2")
  case True
  with run show ?thesis by (auto simp: Crossover_apply_array_st_def Crossover_apply_array_def)
next
  case len: False
  then have l2: "length refs = 2" by simp
  then have r0: "refs ! 0 < length (heap s)" and r1: "refs ! 1 < length (heap s)"
    using refs by (auto simp: all_set_conv_all_nth)
  have v0: "map (\<lambda>r. heap s ! r) refs ! 0 = heap s ! (refs ! 0)"
    and v1: "map (\<lambda>r. heap s ! r) refs ! 1 = heap s ! (refs ! 1)" using l2 by simp_all
  show ?thesis
  proof (cases fft)
    case False
    let ?a = "heap s ! (refs ! 0)" and ?b = "heap s ! (refs ! 1)"
    have pure: "Crossover_apply_array fpow fwd bwd axis max_size fft g (map (\<lambda>r. heap s ! r) refs)
        = Crossover_window fpow axis max_size g ?a ?b"
      using l2 False v0 v1 by (simp add: Crossover_apply_array_def)
    show ?thesis
    proof (cases "Crossover_slices fpow axis max_size g (shape ?a) (shape ?b) (array_size ?a)")
      case (Inl e)
      with run len False have "out = Inl e" by (simp add: Crossover_apply_array_st_def)
      with pure Inl show ?thesis by (simp add: Crossover_window_slices)
    next
      case (Inr p)
      obtain slices g2 where p: "p = (slices, g2)" by (cases p)
      obtain r h where m: "copy_and_merge (heap s) (refs ! 0) (refs ! 1) slices = (r, h)"
        by (cases "copy_and_merge (heap s) (refs ! 0) (refs ! 1) slices")
      from run len False Inr p m have o: "out = Inr (r, g2)" "s' = s\<lparr>heap := h\<rparr>"
        by (simp_all add: Crossover_apply_array_st_def)
      from copy_and_merge_value[OF m r0 r1] o pure Inr p show ?thesis
        by (simp add: Crossover_window_slices)
    qed
  next
    case True
    show ?thesis
    proof (cases axis)
      case None
      with run len True l2 show ?thesis
        by (auto simp: Crossover_apply_array_st_def Crossover_apply_array_def)
    next
      case (Some t)
      let ?a = "fwd t (heap s ! (refs ! 0))" and ?b = "fwd t (heap s ! (refs ! 1))"
      let ?fa = "length (spectral s)" and ?fb = "Suc (length (spectral s))"
      let ?s2 = "s\<lparr>spectral := spectral s @ [?a, ?b]\<rparr>"
      have pure: "Crossover_apply_array fpow fwd bwd axis max_size fft g (map (\<lambda>r. heap s ! r) refs)
        = (case Crossover_window fpow axis max_size g ?a ?b of
             Inl e \<Rightarrow> Inl e | Inr (result, g') \<Rightarrow> Inr (bwd t result, g'))"
        using l2 True Some v0 v1 by (simp add: Crossover_apply_array_def)
      have sa: "spectral ?s2 ! ?fa = ?a" and sb: "spectral ?s2 ! ?fb = ?b"
        by (simp_all add: nth_append)
      show ?thesis
      proof (cases "Crossover_slices fpow axis max_size g (shape ?a) (shape ?b) (array_size ?a)")
        case (Inl e)
        with run len True Some sa sb have "out = Inl e"
          by (simp add: Crossover_apply_array_st_def alloc_spectral_def)
        with pure Inl show ?thesis by (simp add: Crossover_window_slices)
      next
        case (Inr p)
        obtain slices g2 where p: "p = (slices, g2)" by (cases p)
        obtain r sp where m: "copy_and_merge (spectral ?s2) ?fa ?fb slices = (r, sp)"
          by (cases "copy_and_merge (spectral ?s2) ?fa ?fb slices")
        from run len True Some Inr p m sa sb
        have o: "out = Inr (length (heap s), g2)" "heap s' = heap s @ [bwd t (sp ! r)]"
          by (auto simp: Crossover_apply_array_st_def alloc_spectral_def alloc_def)
        have "sp ! r = set_window (spectral ?s2 ! ?fa) slices (get_window (spectral ?s2 ! ?fb) slices)"
          using m by (rule copy_and_merge_value) simp_all
        then have "sp ! r = set_window ?a slices (get_window ?b slices)" using sa sb by simp
        with o pure Inr p show ?thesis by (simp add: Crossover_window_slices)
      qed
    qed
  qed
qed

lemma Translation_apply_array_st_refines:
  assumes "Translation_apply_array_st axis g refs s = (out, s')"
  shows "Translation_apply_array axis g (map (\<lambda>r. heap s ! r) refs)
           = (case out of Inl e \<Rightarrow> Inl e | Inr (r, g') \<Rightarrow> Inr (heap s' ! r, g'))"
  using assms
  by (auto simp: Translation_apply_array_st_def Translation_apply_array_def alloc_def
      split: if_splits option.splits sum.splits prod.splits)

lemma TunedTranslation_apply_array_st_refines:
  assumes "TunedTranslation_apply_array_st axis shp shift refs s = (out, s')"
  shows "TunedTranslation_apply_array axis shp shift (map (\<lambda>r. heap s ! r) refs)
           = (case out of Inl e \<Rightarrow> Inl e | Inr (r, c) \<Rightarrow> Inr (heap s' ! r, c))"
  using assms
  by (auto simp: TunedTranslation_apply_array_st_def TunedTranslation_apply_array_def alloc_def Let_def
      split: if_splits sum.splits prod.splits)

lemma LocalGaussian_apply_invalid_axis:
  assumes one: "length (params s) = 1"
    and shp: "shp0 = shape (heap s ! value_ref (params s ! 0))"
    and bad: "\<exists>a<length shp0. int a \<in> set (case axes of None \<Rightarrow> map int [0..<length shp0] | Some t \<Rightarrow> t)
                \<and> shp0 ! a \<le> 1"
  shows "LocalGaussian_apply to_std from_std axes sz g s
           = (Inl ValueError, s\<lparr>heap := heap s @ [zeros shp0]\<rparr>)"
proof -
  from bad have "\<exists>j<length shp0. int (0 + j) \<in> set (case axes of None \<Rightarrow> map int [0..<length shp0] | Some t \<Rightarrow> t)
                \<and> shp0 ! j \<le> 1" by simp
  from make_slices_loop_fails[OF this]
  have "make_slices shp0 (case axes of None \<Rightarrow> map int [0..<length shp0] | Some t \<Rightarrow> t) sz g
          = Inl ValueError" by (simp add: make_slices_def)
  then show ?thesis using one unfolding shp
    by (simp add: LocalGaussian_apply_def Let_def alloc_def)
qed








section \<open>The claims\<close>


text \<open>
  C2. For every shape, every set of axes and every positive size that is at most
  \<open>extent - 1\<close> on each targeted axis, \<open>_make_slices\<close> returns one range per dimension:
  on a targeted axis \<open>stop - start = size\<close>, \<open>start\<close> lies in \<open>[0, extent - size)\<close> and
  \<open>0 \<le> start \<le> stop \<le> extent\<close>; on any other axis the range is \<open>(0, extent)\<close>. Every
  choice of starts in these ranges is produced by some state of the random source (the
  distribution itself is not part of the model). A targeted axis of extent at most 1 makes
  the call fail with the ValueError that the spec calls InvalidAxisError.
\<close>

theorem make_slices_window:
  "(0 < sz \<and> (\<forall>a<length shp. int a \<in> set axes \<longrightarrow> sz \<le> int (shp ! a) - 1) \<longrightarrow>
      (\<exists>sl g'. make_slices shp axes sz g = Inr (sl, g') \<and> length sl = length shp \<and>
         (\<forall>a<length shp.
            (int a \<in> set axes \<longrightarrow>
               snd (sl ! a) - fst (sl ! a) = sz \<and>
               0 \<le> fst (sl ! a) \<and> fst (sl ! a) < int (shp ! a) - sz \<and>
               fst (sl ! a) \<le> snd (sl ! a) \<and> snd (sl ! a) \<le> int (shp ! a)) \<and>
            (int a \<notin> set axes \<longrightarrow> sl ! a = (0, int (shp ! a))))) \<and>
      (\<forall>starts. length starts = length shp \<and>
         (\<forall>a<length shp. int a \<in> set axes \<longrightarrow> 0 \<le> starts ! a \<and> starts ! a < int (shp ! a) - sz) \<longrightarrow>
         (\<exists>g0 sl g'. make_slices shp axes sz g0 = Inr (sl, g') \<and>
            (\<forall>a<length shp. int a \<in> set axes \<longrightarrow> fst (sl ! a) = starts ! a)))) \<and>
   ((\<exists>a<length shp. int a \<in> set axes \<and> shp ! a \<le> 1) \<longrightarrow>
      make_slices shp axes sz g = Inl ValueError)"
proof (intro conjI impI)
  assume h: "0 < sz \<and> (\<forall>a<length shp. int a \<in> set axes \<longrightarrow> sz \<le> int (shp ! a) - 1)"
  then have ok: "\<forall>j<length shp. int (0 + j) \<in> set axes \<longrightarrow> 2 \<le> shp ! j \<and> sz < int (shp ! j)"
    by fastforce
  from make_slices_loop_succeeds[OF ok, of g] obtain sl g' where
    r: "make_slices_loop 0 shp axes sz g = Inr (sl, g')" by blast
  note p = make_slices_loop_Inr[OF r]
  have "\<forall>a<length shp.
          (int a \<in> set axes \<longrightarrow>
             snd (sl ! a) - fst (sl ! a) = sz \<and>
             0 \<le> fst (sl ! a) \<and> fst (sl ! a) < int (shp ! a) - sz \<and>
             fst (sl ! a) \<le> snd (sl ! a) \<and> snd (sl ! a) \<le> int (shp ! a)) \<and>
          (int a \<notin> set axes \<longrightarrow> sl ! a = (0, int (shp ! a)))"
  proof (intro allI impI)
    fix a assume a: "a < length shp"
    from p a have t: "int a \<in> set axes \<longrightarrow>
           snd (sl ! a) = fst (sl ! a) + sz \<and> 0 \<le> fst (sl ! a) \<and>
           fst (sl ! a) < int (shp ! a) - sz"
      and u: "int a \<notin> set axes \<longrightarrow> sl ! a = (0, int (shp ! a))" by simp_all
    show "(int a \<in> set axes \<longrightarrow>
             snd (sl ! a) - fst (sl ! a) = sz \<and>
             0 \<le> fst (sl ! a) \<and> fst (sl ! a) < int (shp ! a) - sz \<and>
             fst (sl ! a) \<le> snd (sl ! a) \<and> snd (sl ! a) \<le> int (shp ! a)) \<and>
          (int a \<notin> set axes \<longrightarrow> sl ! a = (0, int (shp ! a)))"
      using t u h by auto
  qed
  with r p show "\<exists>sl g'. make_slices shp axes sz g = Inr (sl, g') \<and> length sl = length shp \<and>
         (\<forall>a<length shp.
            (int a \<in> set axes \<longrightarrow>
               snd (sl ! a) - fst (sl ! a) = sz \<and>
               0 \<le> fst (sl ! a) \<and> fst (sl ! a) < int (shp ! a) - sz \<and>
               fst (sl ! a) \<le> snd (sl ! a) \<and> snd (sl ! a) \<le> int (shp ! a)) \<and>
            (int a \<notin> set axes \<longrightarrow> sl ! a = (0, int (shp ! a))))"
    unfolding make_slices_def by blast
next
  assume h: "0 < sz \<and> (\<forall>a<length shp. int a \<in> set axes \<longrightarrow> sz \<le> int (shp ! a) - 1)"
  show "\<forall>starts. length starts = length shp \<and>
         (\<forall>a<length shp. int a \<in> set axes \<longrightarrow> 0 \<le> starts ! a \<and> starts ! a < int (shp ! a) - sz) \<longrightarrow>
         (\<exists>g0 sl g'. make_slices shp axes sz g0 = Inr (sl, g') \<and>
            (\<forall>a<length shp. int a \<in> set axes \<longrightarrow> fst (sl ! a) = starts ! a))"
  proof (intro allI impI)
    fix starts :: "int list"
    assume s: "length starts = length shp \<and>
         (\<forall>a<length shp. int a \<in> set axes \<longrightarrow> 0 \<le> starts ! a \<and> starts ! a < int (shp ! a) - sz)"
    have c: "\<forall>j<length shp. int (0 + j) \<in> set axes \<longrightarrow>
       2 \<le> shp ! j \<and> 0 \<le> starts ! j \<and> starts ! j < int (shp ! j) - sz"
      using s h by fastforce
    from make_slices_loop_hits[OF conjunct1[OF s] c, of \<open>\<lparr>ints = [], normals = []\<rparr>\<close>]
    show "\<exists>g0 sl g'. make_slices shp axes sz g0 = Inr (sl, g') \<and>
            (\<forall>a<length shp. int a \<in> set axes \<longrightarrow> fst (sl ! a) = starts ! a)"
      unfolding make_slices_def by auto
  qed
next
  assume "\<exists>a<length shp. int a \<in> set axes \<and> shp ! a \<le> 1"
  then have "\<exists>j<length shp. int (0 + j) \<in> set axes \<and> shp ! j \<le> 1" by simp
  from make_slices_loop_fails[OF this] show "make_slices shp axes sz g = Inl ValueError"
    by (simp add: make_slices_def)
qed

theorem make_slices_window_witness:
  "(\<exists>sl g'. make_slices [4, 4] [1] 2 \<lparr>ints = [5], normals = []\<rparr> = Inr (sl, g') \<and>
      sl ! 0 = (0, 4) \<and> snd (sl ! 1) - fst (sl ! 1) = 2 \<and> snd (sl ! 1) \<le> 4) \<and>
   make_slices [4, 1] [1] 2 \<lparr>ints = [5], normals = []\<rparr> = Inl ValueError"
  using make_slices_window[of 2 "[4, 4]" "[1]" "\<lparr>ints = [5], normals = []\<rparr>"]
        make_slices_window[of 2 "[4, 1]" "[1]" "\<lparr>ints = [5], normals = []\<rparr>"]
  by (auto simp: All_less_Suc)





text \<open>
  C4. For every \<open>TunedTranslation._apply_array\<close> call on one well-formed array whose shape
  is the configured shape, with the \<open>shift\<close> parameter holding the choices
  \<open>range(1, shape[axis])\<close> the constructor gives it and a sampled position among them: the
  call returns an array of the shape of the input, which is the input shifted cyclically
  along the fixed axis by the sampled shift (the element at position \<open>i\<close> of that axis is
  found at \<open>(i + shift) mod extent\<close>); the sampled shift lies in \<open>[1, extent - 1]\<close>; and the
  weight vector after the call is the one before, shifted cyclically by the sampled shift.
\<close>

theorem TunedTranslation_shift:
  assumes wf: "wf_array a" and sh: "shape a = shp"
    and ext: "py_index shp axis = Inr ext"
    and ch: "choices shift = [1..int ext - 1]"
    and ix: "index shift < length (choices shift)"
  shows "\<exists>r shift'. TunedTranslation_apply_array axis shp shift [a] = Inr (r, shift') \<and>
     shape r = shape a \<and> wf_array r \<and>
     1 \<le> Choice_value shift \<and> Choice_value shift \<le> int ext - 1 \<and>
     (\<forall>idx. valid_index shp idx \<longrightarrow>
        item r (idx[nat (axis mod int (length shp)) :=
                    nat ((int (idx ! nat (axis mod int (length shp))) + Choice_value shift) mod int ext)])
          = item a idx) \<and>
     choices shift' = choices shift \<and> index shift' = index shift \<and>
     shape (weights shift') = shape (weights shift) \<and>
     length (data (weights shift')) = length (data (weights shift)) \<and>
     (\<forall>i<length (data (weights shift)).
        data (weights shift') ! nat ((int i + Choice_value shift) mod int (length (data (weights shift))))
          = data (weights shift) ! i)"
proof -
  let ?t = "nat (axis mod int (length shp))"
  let ?v = "Choice_value shift"
  let ?r = "roll_by a (\<lambda>j. if j = ?t then ?v else 0)"
  let ?s' = "shift\<lparr>weights := np_roll_flat (weights shift) ?v\<rparr>"
  note p = py_index_Inr[OF ext]
  have valid: "\<forall>ax\<in>set [axis]. - int (length (shape a)) \<le> ax \<and> ax < int (length (shape a))"
    using p sh by simp
  have roll: "np_roll a [?v] [axis] = Inr ?r"
    using np_roll_valid[OF valid, of "[?v]"] axis_offset_single_fun[OF p(1,2), of a ?v] sh by simp
  have call: "TunedTranslation_apply_array axis shp shift [a] = Inr (?r, ?s')"
    using roll sh by (simp add: TunedTranslation_apply_array_def Let_def)
  have len: "int (index shift) < int ext - 1 - 1 + 1" using ix ch by simp
  have val: "?v = 1 + int (index shift)"
    unfolding Choice_value_def ch using len by (rule nth_upto_from)
  have rng: "1 \<le> ?v" "?v \<le> int ext - 1" using val len by simp_all
  have elems: "\<forall>idx. valid_index shp idx \<longrightarrow>
        item ?r (idx[?t := nat ((int (idx ! ?t) + ?v) mod int ext)]) = item a idx"
  proof (intro allI impI)
    fix idx assume v: "valid_index shp idx"
    let ?k = "nat ((int (idx ! ?t) + ?v) mod int (shp ! ?t))"
    have e: "ext = shp ! ?t" using p(3) .
    have "idx ! ?t < shp ! ?t" using v p(4) by (simp add: valid_index_nth)
    then have pos: "0 < int (shp ! ?t)" by simp
    have "0 \<le> (int (idx ! ?t) + ?v) mod int (shp ! ?t)"
      and "(int (idx ! ?t) + ?v) mod int (shp ! ?t) < int (shp ! ?t)"
      using pos by (rule pos_mod_sign, rule pos_mod_bound)
    then have k: "?k < shp ! ?t" by (simp add: nat_less_iff)
    have v': "valid_index (shape a) (idx[?t := ?k])"
      unfolding sh using v p(4) k by (rule update_valid)
    have "item ?r (idx[?t := ?k])
          = item a (roll_source (shape a) (\<lambda>j. if j = ?t then ?v else 0) (idx[?t := ?k]))"
      using v' by (rule item_roll_by)
    also have "roll_source (shape a) (\<lambda>j. if j = ?t then ?v else 0) (idx[?t := ?k]) = idx"
      unfolding sh using v p(4) by (rule roll_single_forward)
    finally show "item ?r (idx[?t := nat ((int (idx ! ?t) + ?v) mod int ext)]) = item a idx"
      unfolding e .
  qed
  have w: "\<forall>i<length (data (weights shift)).
        data (weights ?s') ! nat ((int i + ?v) mod int (length (data (weights shift))))
          = data (weights shift) ! i"
    by (simp add: np_roll_flat_forward)
  show ?thesis
    apply (rule exI[of _ ?r], rule exI[of _ ?s'])
    using call rng elems w by simp
qed

theorem TunedTranslation_shift_witness:
  "py_index [4::nat] 0 = Inr 4 \<and>
   Choice_value \<lparr>choices = [1, 2, 3], weights = \<lparr>shape = [3], data = [5, 6, 7]\<rparr>, index = 1\<rparr> = 2 \<and>
   (\<exists>r shift'.
      TunedTranslation_apply_array 0 [4]
        \<lparr>choices = [1, 2, 3], weights = \<lparr>shape = [3], data = [5, 6, 7]\<rparr>, index = 1\<rparr>
        [\<lparr>shape = [4], data = [1, 2, 3, 4 :: int]\<rparr>] = Inr (r, shift') \<and>
      shape r = [4] \<and> wf_array r \<and>
      item r [2] = item \<lparr>shape = [4], data = [1, 2, 3, 4 :: int]\<rparr> [0] \<and>
      data (weights shift') ! 2 = 5)"
proof -
  let ?a = "\<lparr>shape = [4], data = [1, 2, 3, 4 :: int]\<rparr>"
  let ?s = "\<lparr>choices = [1, 2, 3], weights = \<lparr>shape = [3], data = [5, 6, 7]\<rparr>, index = 1\<rparr>"
  have wf: "wf_array ?a" by (simp add: wf_array_def)
  have sh: "shape ?a = [4]" by simp
  have ext: "py_index [4::nat] 0 = Inr 4" by (simp add: py_index_def)
  have ch: "choices ?s = [1..int 4 - 1]" by (simp add: upto.simps)
  have ix: "index ?s < length (choices ?s)" by simp
  have val: "Choice_value ?s = 2" by (simp add: Choice_value_def)
  have vi: "valid_index [4] [0]" by (simp add: valid_index_def)
  from TunedTranslation_shift[OF wf sh ext ch ix] obtain r shift' where
    c: "TunedTranslation_apply_array 0 [4] ?s [?a] = Inr (r, shift')"
    and p: "shape r = shape ?a" "wf_array r"
    and e: "\<forall>idx. valid_index [4] idx \<longrightarrow>
        item r (idx[nat (0 mod int (length [4::nat])) :=
                    nat ((int (idx ! nat (0 mod int (length [4::nat]))) + Choice_value ?s) mod int 4)])
          = item ?a idx"
    and w: "\<forall>i<length (data (weights ?s)).
        data (weights shift') ! nat ((int i + Choice_value ?s) mod int (length (data (weights ?s))))
          = data (weights ?s) ! i"
    by blast
  from e[rule_format, OF vi] val have "item r [2] = item ?a [0]" by simp
  moreover from w[rule_format, of 0] val have "data (weights shift') ! 2 = 5" by simp
  ultimately show ?thesis using ext val c p by auto
qed

text \<open>
  C5. For every pair of arrays of one shape in which some targeted axis has extent 1 (or
  0), \<open>Crossover._apply_array\<close> fails with ValueError, the exception class that the spec
  calls InvalidAxisError. The premises name the shape the two arrays have when they
  reach the shape check (after the transform when \<open>fft\<close> is set) and ask that the axes
  index the shape. The exception is raised by \<open>randint(1, max_size)\<close>, whose range is
  empty once \<open>max_size\<close> is clamped to \<open>extent - 1 \<le> 0\<close>.
\<close>

theorem Crossover_extent_one_fails:
  assumes "fft \<longrightarrow> axis \<noteq> None"
    and "(if fft then shape (fwd (the axis) a) else shape a) = shp"
    and "(if fft then shape (fwd (the axis) b) else shape b) = shp"
    and "ax = (case axis of None \<Rightarrow> map int [0..<length shp] | Some t \<Rightarrow> t)"
    and "\<forall>t\<in>set ax. - int (length shp) \<le> t \<and> t < int (length shp)"
    and "\<exists>t\<in>set ax. shp ! nat (t mod int (length shp)) \<le> 1"
  shows "Crossover_apply_array fpow fwd bwd axis max_size fft g [a, b] = Inl ValueError"
proof (cases fft)
  case True
  with assms(1) obtain t where t: "axis = Some t" by auto
  have "Crossover_window fpow axis max_size g (fwd t a) (fwd t b) = Inl ValueError"
    using assms True t by (intro Crossover_window_fails[where ax = ax]) (simp_all cong: option.case_cong)
  then show ?thesis using True t by (simp add: Crossover_apply_array_def)
next
  case False
  have "Crossover_window fpow axis max_size g a b = Inl ValueError"
    using assms False by (intro Crossover_window_fails[where ax = ax]) (simp_all cong: option.case_cong)
  then show ?thesis using False by (simp add: Crossover_apply_array_def)
qed

theorem Crossover_extent_one_fails_witness:
  "Crossover_apply_array (\<lambda>x y. x) (\<lambda>t x. x) (\<lambda>t x. x) None None False \<lparr>ints = [], normals = []\<rparr>
     [\<lparr>shape = [3, 1], data = [1, 2, 3 :: int]\<rparr>, \<lparr>shape = [3, 1], data = [4, 5, 6]\<rparr>]
   = Inl ValueError"
  by (rule Crossover_extent_one_fails[where shp = "[3, 1]" and ax = "[0, 1]"]) (simp_all add: upt_rec)

text \<open>
  C6. For each of the four operators, when \<open>apply\<close> fails the array parameters are as
  they were before the call: every parameter is bound to the object it was bound to, and
  every object that was on the heap before the call holds the data it held (the heap after
  the call is the heap before it, followed by the temporaries the call had allocated when it
  failed). The only statement that rebinds or rewrites a parameter is the last one, after
  every check and the whole computation, and the in-place writes \<open>result[slices] = ...\<close>
  and \<open>data[slices] += ...\<close> go to objects the call has allocated itself. A wrong number of
  arrays fails in this way (Exception for Crossover, AssertionError for the others), and so
  do two arrays of different shapes given to Crossover without FFT, an array whose shape is
  not the one TunedTranslation was built for, and a LocalGaussian axis of extent at most 1,
  which fails after \<open>np.zeros\<close> has allocated its array.
\<close>

theorem apply_failure_leaves_arrays:
  "(Crossover_apply fpow fwd bwd axis max_size fft g s = (Inl e, after_c) \<longrightarrow>
      params after_c = params s \<and> (\<exists>new. heap after_c = heap s @ new)) \<and>
   (Translation_apply taxis g s = (Inl e, after_t) \<longrightarrow>
      params after_t = params s \<and> (\<exists>new. heap after_t = heap s @ new)) \<and>
   (LocalGaussian_apply to_std from_std axes sz g s = (Inl e, after_g) \<longrightarrow>
      params after_g = params s \<and> (\<exists>new. heap after_g = heap s @ new)) \<and>
   (TunedTranslation_apply ttaxis shp shift s = (Inl e, after_tt) \<longrightarrow>
      params after_tt = params s \<and> (\<exists>new. heap after_tt = heap s @ new)) \<and>
   (length (params s) \<noteq> 2 \<longrightarrow>
      Crossover_apply fpow fwd bwd axis max_size fft g s = (Inl Exception, s)) \<and>
   (length (params s) = 2 \<and> \<not> fft \<and>
    shape (heap s ! value_ref (params s ! 0)) \<noteq> shape (heap s ! value_ref (params s ! 1)) \<longrightarrow>
      Crossover_apply fpow fwd bwd axis max_size fft g s = (Inl AssertionError, s)) \<and>
   (length (params s) \<noteq> 1 \<longrightarrow>
      Translation_apply taxis g s = (Inl AssertionError, s) \<and>
      LocalGaussian_apply to_std from_std axes sz g s = (Inl AssertionError, s) \<and>
      TunedTranslation_apply ttaxis shp shift s = (Inl AssertionError, s)) \<and>
   (length (params s) = 1 \<and> shape (heap s ! value_ref (params s ! 0)) \<noteq> shp \<longrightarrow>
      TunedTranslation_apply ttaxis shp shift s = (Inl AssertionError, s)) \<and>
   (length (params s) = 1 \<and>
    (\<exists>a<length (shape (heap s ! value_ref (params s ! 0))).
        int a \<in> set (case axes of
                       None \<Rightarrow> map int [0..<length (shape (heap s ! value_ref (params s ! 0)))]
                     | Some t \<Rightarrow> t) \<and>
        shape (heap s ! value_ref (params s ! 0)) ! a \<le> 1) \<longrightarrow>
      LocalGaussian_apply to_std from_std axes sz g s
        = (Inl ValueError, s\<lparr>heap := heap s @ [zeros (shape (heap s ! value_ref (params s ! 0)))]\<rparr>))"
proof (intro conjI impI)
  assume "Crossover_apply fpow fwd bwd axis max_size fft g s = (Inl e, after_c)"
  from Crossover_apply_failure[OF this]
  show "params after_c = params s" "\<exists>new. heap after_c = heap s @ new" by simp_all
next
  assume "Translation_apply taxis g s = (Inl e, after_t)"
  from Translation_apply_failure[OF this]
  show "params after_t = params s" "\<exists>new. heap after_t = heap s @ new" by simp_all
next
  assume "LocalGaussian_apply to_std from_std axes sz g s = (Inl e, after_g)"
  from LocalGaussian_apply_failure[OF this]
  show "params after_g = params s" "\<exists>new. heap after_g = heap s @ new" by simp_all
next
  assume "TunedTranslation_apply ttaxis shp shift s = (Inl e, after_tt)"
  from TunedTranslation_apply_failure[OF this]
  show "params after_tt = params s" "\<exists>new. heap after_tt = heap s @ new" by simp_all
next
  assume "length (params s) \<noteq> 2"
  then show "Crossover_apply fpow fwd bwd axis max_size fft g s = (Inl Exception, s)"
    by (simp add: Crossover_apply_def Crossover_apply_array_st_def)
next
  assume "length (params s) = 2 \<and> \<not> fft \<and>
    shape (heap s ! value_ref (params s ! 0)) \<noteq> shape (heap s ! value_ref (params s ! 1))"
  then show "Crossover_apply fpow fwd bwd axis max_size fft g s = (Inl AssertionError, s)"
    by (simp add: Crossover_apply_def Crossover_apply_array_st_def Crossover_slices_def)
next
  assume "length (params s) \<noteq> 1"
  then show "Translation_apply taxis g s = (Inl AssertionError, s)"
    by (simp add: Translation_apply_def Translation_apply_array_st_def Mutation_apply_def)
next
  assume "length (params s) \<noteq> 1"
  then show "LocalGaussian_apply to_std from_std axes sz g s = (Inl AssertionError, s)"
    by (simp add: LocalGaussian_apply_def)
next
  assume "length (params s) \<noteq> 1"
  then show "TunedTranslation_apply ttaxis shp shift s = (Inl AssertionError, s)"
    by (simp add: TunedTranslation_apply_def TunedTranslation_apply_array_st_def Mutation_apply_def)
next
  assume "length (params s) = 1 \<and> shape (heap s ! value_ref (params s ! 0)) \<noteq> shp"
  then show "TunedTranslation_apply ttaxis shp shift s = (Inl AssertionError, s)"
    by (cases "params s")
       (simp_all add: TunedTranslation_apply_def TunedTranslation_apply_array_st_def Mutation_apply_def)
next
  assume h: "length (params s) = 1 \<and>
    (\<exists>a<length (shape (heap s ! value_ref (params s ! 0))).
        int a \<in> set (case axes of
                       None \<Rightarrow> map int [0..<length (shape (heap s ! value_ref (params s ! 0)))]
                     | Some t \<Rightarrow> t) \<and>
        shape (heap s ! value_ref (params s ! 0)) ! a \<le> 1)"
  then show "LocalGaussian_apply to_std from_std axes sz g s
        = (Inl ValueError, s\<lparr>heap := heap s @ [zeros (shape (heap s ! value_ref (params s ! 0)))]\<rparr>)"
    by (intro LocalGaussian_apply_invalid_axis[OF _ refl]) blast+
qed



theorem apply_failure_leaves_arrays_witness:
  "Crossover_apply (\<lambda>x y. x) (\<lambda>t x. x) (\<lambda>t x. x) None None False \<lparr>ints = [], normals = []\<rparr>
      \<lparr>params = [\<lparr>value_ref = 0, bounds = (None, None)\<rparr>],
        heap = [\<lparr>shape = [1], data = [7]\<rparr>], spectral = []\<rparr>
     = (Inl Exception,
        \<lparr>params = [\<lparr>value_ref = 0, bounds = (None, None)\<rparr>],
          heap = [\<lparr>shape = [1], data = [7]\<rparr>], spectral = ([] :: real ndarray list)\<rparr>) \<and>
   Translation_apply (Some [0]) \<lparr>ints = [], normals = []\<rparr>
      \<lparr>params = [], heap = [], spectral = ([] :: real ndarray list)\<rparr>
     = (Inl AssertionError, \<lparr>params = [], heap = [], spectral = []\<rparr>) \<and>
   LocalGaussian_apply (\<lambda>x. x) (\<lambda>x. x) None 1 \<lparr>ints = [], normals = []\<rparr>
      \<lparr>params = [\<lparr>value_ref = 0, bounds = (None, None)\<rparr>],
        heap = [\<lparr>shape = [1], data = [7]\<rparr>], spectral = ([] :: real ndarray list)\<rparr>
     = (Inl ValueError,
        \<lparr>params = [\<lparr>value_ref = 0, bounds = (None, None)\<rparr>],
          heap = [\<lparr>shape = [1], data = [7]\<rparr>, \<lparr>shape = [1], data = [0]\<rparr>], spectral = []\<rparr>) \<and>
   TunedTranslation_apply 0 [2] (Choice_init 0 [1])
      \<lparr>params = [\<lparr>value_ref = 0, bounds = (None, None)\<rparr>],
        heap = [\<lparr>shape = [1], data = [7]\<rparr>], spectral = ([] :: real ndarray list)\<rparr>
     = (Inl AssertionError,
        \<lparr>params = [\<lparr>value_ref = 0, bounds = (None, None)\<rparr>],
          heap = [\<lparr>shape = [1], data = [7]\<rparr>], spectral = []\<rparr>)"
proof -
  let ?g = "\<lparr>ints = [], normals = []\<rparr>"
  let ?s = "\<lparr>params = [\<lparr>value_ref = 0, bounds = (None, None)\<rparr>],
        heap = [\<lparr>shape = [1], data = [7]\<rparr>], spectral = ([] :: real ndarray list)\<rparr>"
  let ?e = "\<lparr>params = [], heap = [], spectral = ([] :: real ndarray list)\<rparr>"
  let ?id = "\<lambda>(t::int list) (x::real ndarray). x"
  note T = apply_failure_leaves_arrays[where fpow = "\<lambda>x y. x" and fwd = ?id and bwd = ?id
      and axis = None and max_size = None and fft = False and g = ?g and taxis = "Some [0]"
      and to_std = "\<lambda>x. x" and from_std = "\<lambda>x. x"
      and axes = None and sz = 1 and ttaxis = 0 and shp = "[2]" and shift = "Choice_init 0 [1]"]
  have l1: "length (params ?s) \<noteq> 2" by simp
  have c1: "Crossover_apply (\<lambda>x y. x) ?id ?id None None False ?g ?s = (Inl Exception, ?s)"
    using T[where s = ?s] l1 by blast
  have l2: "length (params ?e) \<noteq> 1" by simp
  have c2: "Translation_apply (Some [0]) ?g ?e = (Inl AssertionError, ?e)"
    using T[where s = ?e] l2 by blast
  have l3: "length (params ?s) = 1 \<and>
    (\<exists>a<length (shape (heap ?s ! value_ref (params ?s ! 0))).
        int a \<in> set (case None of
                       None \<Rightarrow> map int [0..<length (shape (heap ?s ! value_ref (params ?s ! 0)))]
                     | Some t \<Rightarrow> t) \<and>
        shape (heap ?s ! value_ref (params ?s ! 0)) ! a \<le> 1)"
    by simp
  have c3: "LocalGaussian_apply (\<lambda>x. x) (\<lambda>x. x) None 1 ?g ?s
      = (Inl ValueError, ?s\<lparr>heap := heap ?s @ [zeros (shape (heap ?s ! value_ref (params ?s ! 0)))]\<rparr>)"
    using T[where s = ?s] l3 by blast
  have "params (?s\<lparr>heap := heap ?s @ [zeros (shape (heap ?s ! value_ref (params ?s ! 0)))]\<rparr>) = params ?s"
    using T[where s = ?s and e = ValueError and after_g =
        "?s\<lparr>heap := heap ?s @ [zeros (shape (heap ?s ! value_ref (params ?s ! 0)))]\<rparr>"] c3
    by blast
  have l4: "length (params ?s) = 1 \<and> shape (heap ?s ! value_ref (params ?s ! 0)) \<noteq> [2]" by simp
  have c4: "TunedTranslation_apply 0 [2] (Choice_init 0 [1]) ?s = (Inl AssertionError, ?s)"
    using T[where s = ?s] l4 by blast
  from c1 c2 c3 c4 show ?thesis by (simp add: zeros_def)
qed

text \<open>
  C7. When the two input arrays are one well-formed array, every result that
  \<open>Crossover._apply_array\<close> returns equals that array, whichever window is drawn; with
  \<open>fft\<close> set this holds for a transform whose \<open>backward\<close> undoes \<open>forward\<close> on that array.
  Without \<open>fft\<close> the call does return, for every state of the random source, when the
  axes index the shape, every targeted extent is at least 2 and the resolved \<open>max_size\<close>
  is at least 1.
\<close>

theorem Crossover_identical_inputs:
  assumes wf: "wf_array A"
    and tr: "fft \<longrightarrow> (\<forall>t. axis = Some t \<longrightarrow> wf_array (fwd t A) \<and> bwd t (fwd t A) = A)"
  shows "(Crossover_apply_array fpow fwd bwd axis max_size fft g [A, A] = Inr (r, g') \<longrightarrow> r = A) \<and>
         (\<not> fft \<and>
          ax = (case axis of None \<Rightarrow> map int [0..<length (shape A)] | Some t \<Rightarrow> t) \<and> ax \<noteq> [] \<and>
          (\<forall>t\<in>set ax. - int (length (shape A)) \<le> t \<and> t < int (length (shape A)) \<and>
                       2 \<le> shape A ! nat (t mod int (length (shape A)))) \<and>
          (\<exists>m0. resolve_max_size fpow max_size (array_size A) ax = Inr m0 \<and> 1 \<le> m0) \<longrightarrow>
            (\<exists>g1. Crossover_apply_array fpow fwd bwd axis max_size fft g [A, A] = Inr (A, g1)))"
proof (intro conjI impI)
  assume c: "Crossover_apply_array fpow fwd bwd axis max_size fft g [A, A] = Inr (r, g')"
  show "r = A"
  proof (cases fft)
    case True
    with c obtain t r' where t: "axis = Some t"
      and w: "Crossover_window fpow axis max_size g (fwd t A) (fwd t A) = Inr (r', g')"
      and r: "r = bwd t r'"
      by (auto simp: Crossover_apply_array_def split: option.splits sum.splits)
    from tr True t have wf': "wf_array (fwd t A)" and inv: "bwd t (fwd t A) = A" by simp_all
    from Crossover_window_same[OF wf' w] r inv show ?thesis by simp
  next
    case False
    with c have "Crossover_window fpow axis max_size g A A = Inr (r, g')"
      by (simp add: Crossover_apply_array_def)
    from Crossover_window_same[OF wf this] show ?thesis .
  qed
next
  assume h: "\<not> fft \<and>
          ax = (case axis of None \<Rightarrow> map int [0..<length (shape A)] | Some t \<Rightarrow> t) \<and> ax \<noteq> [] \<and>
          (\<forall>t\<in>set ax. - int (length (shape A)) \<le> t \<and> t < int (length (shape A)) \<and>
                       2 \<le> shape A ! nat (t mod int (length (shape A)))) \<and>
          (\<exists>m0. resolve_max_size fpow max_size (array_size A) ax = Inr m0 \<and> 1 \<le> m0)"
  then have nf: "\<not> fft"
    and ax: "ax = (case axis of None \<Rightarrow> map int [0..<length (shape A)] | Some t \<Rightarrow> t)"
    and ne: "ax \<noteq> []"
    and valid: "\<forall>t\<in>set ax. - int (length (shape A)) \<le> t \<and> t < int (length (shape A))"
    and two: "\<forall>t\<in>set ax. 2 \<le> shape A ! nat (t mod int (length (shape A)))"
    by blast+
  from h obtain m0 where m0: "resolve_max_size fpow max_size (array_size A) ax = Inr m0" "1 \<le> m0"
    by blast
  from Crossover_window_succeeds[OF refl ax ne valid two m0, of g] obtain r1 g1 where
    w: "Crossover_window fpow axis max_size g A A = Inr (r1, g1)" by blast
  from Crossover_window_same[OF wf w] have "r1 = A" .
  with w nf show "\<exists>g1. Crossover_apply_array fpow fwd bwd axis max_size fft g [A, A] = Inr (A, g1)"
    by (auto simp: Crossover_apply_array_def)
qed

theorem Crossover_identical_inputs_witness:
  "wf_array \<lparr>shape = [4], data = [1, 2, 3, 4 :: int]\<rparr> \<and>
   (\<exists>g'. Crossover_apply_array (\<lambda>x y. x) (\<lambda>t x. x) (\<lambda>t x. x) (Some [0]) (Some 2) True
        \<lparr>ints = [0, 1], normals = []\<rparr>
        [\<lparr>shape = [4], data = [1, 2, 3, 4 :: int]\<rparr>, \<lparr>shape = [4], data = [1, 2, 3, 4]\<rparr>]
      = Inr (\<lparr>shape = [4], data = [1, 2, 3, 4]\<rparr>, g')) \<and>
   (\<exists>g'. Crossover_apply_array (\<lambda>x y. x) (\<lambda>t x. x) (\<lambda>t x. x) None (Some 2) False
        \<lparr>ints = [0, 1], normals = []\<rparr>
        [\<lparr>shape = [4], data = [1, 2, 3, 4 :: int]\<rparr>, \<lparr>shape = [4], data = [1, 2, 3, 4]\<rparr>]
      = Inr (\<lparr>shape = [4], data = [1, 2, 3, 4]\<rparr>, g'))"
proof -
  let ?A = "\<lparr>shape = [4], data = [1, 2, 3, 4 :: int]\<rparr>"
  let ?id = "\<lambda>(t::int list) (x::int ndarray). x"
  let ?g = "\<lparr>ints = [0, 1], normals = []\<rparr>"
  let ?call = "Crossover_apply_array (\<lambda>x y. x) ?id ?id (Some [0]) (Some 2) True ?g [?A, ?A]"
  have wf: "wf_array ?A" by (simp add: wf_array_def)
  have tr: "True \<longrightarrow> (\<forall>t. Some [0] = Some t \<longrightarrow> wf_array (?id t ?A) \<and> ?id t (?id t ?A) = ?A)"
    using wf by simp
  have "\<exists>r g'. ?call = Inr (r, g')"
    by (simp add: Crossover_apply_array_def Crossover_window_def resolve_max_size_def
      clamp_max_size_def py_index_def draw_size_def randint_def next_int_def make_slices_def)
  then obtain r g' where c: "?call = Inr (r, g')" by blast
  from Crossover_identical_inputs[where fwd = ?id and bwd = ?id and fft = True and axis = "Some [0]"
      and A = ?A, OF wf tr, THEN conjunct1, rule_format, OF c] have "r = ?A" .
  with c have one: "\<exists>g'. ?call = Inr (?A, g')" by blast
  have tr2: "False \<longrightarrow> (\<forall>t. None = Some t \<longrightarrow> wf_array (?id t ?A) \<and> ?id t (?id t ?A) = ?A)"
    by simp
  have h: "\<not> False \<and>
      [0] = (case None of None \<Rightarrow> map int [0..<length (shape ?A)] | Some t \<Rightarrow> t) \<and> [0] \<noteq> ([]::int list) \<and>
      (\<forall>t\<in>set [0]. - int (length (shape ?A)) \<le> t \<and> t < int (length (shape ?A)) \<and>
                       2 \<le> shape ?A ! nat (t mod int (length (shape ?A)))) \<and>
      (\<exists>m0. resolve_max_size (\<lambda>x y. x) (Some 2) (array_size ?A) [0] = Inr m0 \<and> 1 \<le> m0)"
    by (simp add: resolve_max_size_def)
  from Crossover_identical_inputs[where fwd = ?id and bwd = ?id and fft = False and axis = None
      and A = ?A and g = ?g, OF wf tr2, THEN conjunct2, rule_format, OF h]
  have two: "\<exists>g'. Crossover_apply_array (\<lambda>x y. x) ?id ?id None (Some 2) False ?g [?A, ?A]
                = Inr (?A, g')" .
  from wf one two show ?thesis by blast
qed

text \<open>
  C8. For every well-formed array and every tuple of axes that index its shape, rolling by
  the shift vector \<open>v\<close> along those axes and then by \<open>extent - v\<close> per axis gives the
  original array back. The array that \<open>Translation._apply_array\<close> returns is such a roll,
  by the shifts it has drawn, and rolling it by \<open>extent - v\<close> restores its input.
\<close>

theorem Translation_roll_inverse:
  assumes "wf_array a"
  shows "(length v = length axes \<and>
          (\<forall>ax\<in>set axes. - int (length (shape a)) \<le> ax \<and> ax < int (length (shape a))) \<longrightarrow>
            (\<exists>r. np_roll a v axes = Inr r \<and>
               np_roll r (map2 (\<lambda>ax sh. int (shape a ! nat (ax mod int (length (shape a)))) - sh) axes v)
                 axes = Inr a)) \<and>
         (Translation_apply_array (Some axes) g [a] = Inr (r1, g1) \<longrightarrow>
            (\<exists>v1. draw_shifts (shape a) axes g = Inr (v1, g1) \<and> np_roll a v1 axes = Inr r1 \<and>
               np_roll r1
                 (map2 (\<lambda>ax sh. int (shape a ! nat (ax mod int (length (shape a)))) - sh) axes v1)
                 axes = Inr a))"
proof (intro conjI impI)
  assume "length v = length axes \<and>
          (\<forall>ax\<in>set axes. - int (length (shape a)) \<le> ax \<and> ax < int (length (shape a)))"
  then show "\<exists>r. np_roll a v axes = Inr r \<and>
               np_roll r (map2 (\<lambda>ax sh. int (shape a ! nat (ax mod int (length (shape a)))) - sh) axes v)
                 axes = Inr a"
    using np_roll_inverse[OF assms, of v axes] by blast
next
  assume t: "Translation_apply_array (Some axes) g [a] = Inr (r1, g1)"
  then obtain v1 where d: "draw_shifts (shape a) axes g = Inr (v1, g1)"
    and r: "np_roll a v1 axes = Inr r1"
    by (auto simp: Translation_apply_array_def split: sum.splits prod.splits)
  from draw_shifts_Inr[OF d] have len: "length v1 = length axes"
    and valid: "\<forall>ax\<in>set axes. - int (length (shape a)) \<le> ax \<and> ax < int (length (shape a))"
    by simp_all
  from np_roll_inverse[OF assms len valid] r d
  show "\<exists>v1. draw_shifts (shape a) axes g = Inr (v1, g1) \<and> np_roll a v1 axes = Inr r1 \<and>
               np_roll r1
                 (map2 (\<lambda>ax sh. int (shape a ! nat (ax mod int (length (shape a)))) - sh) axes v1)
                 axes = Inr a"
    by auto
qed

theorem Translation_roll_inverse_witness:
  "wf_array \<lparr>shape = [5], data = [1, 2, 3, 4, 5 :: int]\<rparr> \<and>
   Translation_apply_array (Some [0]) \<lparr>ints = [2], normals = []\<rparr>
        [\<lparr>shape = [5], data = [1, 2, 3, 4, 5 :: int]\<rparr>]
     = Inr (\<lparr>shape = [5], data = [4, 5, 1, 2, 3]\<rparr>, \<lparr>ints = [], normals = []\<rparr>) \<and>
   np_roll \<lparr>shape = [5], data = [4, 5, 1, 2, 3 :: int]\<rparr> [3] [0]
     = Inr \<lparr>shape = [5], data = [1, 2, 3, 4, 5]\<rparr>"
proof -
  let ?a = "\<lparr>shape = [5], data = [1, 2, 3, 4, 5 :: int]\<rparr>"
  let ?r = "\<lparr>shape = [5], data = [4, 5, 1, 2, 3 :: int]\<rparr>"
  let ?g = "\<lparr>ints = [2], normals = []\<rparr>"
  let ?g1 = "\<lparr>ints = [], normals = []\<rparr>"
  have wf: "wf_array ?a" by (simp add: wf_array_def)
  have d: "draw_shifts (shape ?a) [0] ?g = Inr ([2], ?g1)"
    by (simp add: py_index_def randint_def next_int_def)
  have e: "Translation_apply_array (Some [0]) ?g [?a] = Inr (?r, ?g1)"
    by (simp add: Translation_apply_array_def py_index_def randint_def next_int_def np_roll_def
     roll_by_def tabulate_def axis_offset_def item_def roll_source_def upt_rec)
  from Translation_roll_inverse[OF wf, THEN conjunct2, rule_format, OF e]
  obtain v1 where v: "draw_shifts (shape ?a) [0] ?g = Inr (v1, ?g1)"
    and b: "np_roll ?r (map2 (\<lambda>ax sh. int (shape ?a ! nat (ax mod int (length (shape ?a)))) - sh) [0] v1) [0]
            = Inr ?a" by blast
  from v d have "v1 = [2]" by simp
  with b have "np_roll ?r [3] [0] = Inr ?a" by simp
  with wf e show ?thesis by blast
qed




text \<open>
  C10. On a targeted axis of extent \<open>s\<close> every range \<open>(start, stop)\<close> that \<open>_make_slices\<close>
  returns has \<open>stop \<le> s - 1\<close>: the last index of a targeted axis is never inside the
  window. Hence the array merged by Crossover keeps the element of the first array at
  every position whose index on some targeted axis is the last one.
\<close>

theorem make_slices_excludes_last:
  "(make_slices shp axes sz g = Inr (sl, g') \<and> t < length shp \<and> int t \<in> set axes \<longrightarrow>
      snd (sl ! t) \<le> int (shp ! t) - 1) \<and>
   (Crossover_window fpow axis max_size g a b = Inr (r, g2) \<and>
    ax = (case axis of None \<Rightarrow> map int [0..<length (shape a)] | Some u \<Rightarrow> u) \<and>
    t < length (shape a) \<and> int t \<in> set ax \<and>
    valid_index (shape a) idx \<and> idx ! t = shape a ! t - 1 \<longrightarrow>
      item r idx = item a idx)"
proof (intro conjI impI)
  assume "make_slices shp axes sz g = Inr (sl, g') \<and> t < length shp \<and> int t \<in> set axes"
  then show "snd (sl ! t) \<le> int (shp ! t) - 1" using make_slices_stop(1) by blast
next
  assume h: "Crossover_window fpow axis max_size g a b = Inr (r, g2) \<and>
    ax = (case axis of None \<Rightarrow> map int [0..<length (shape a)] | Some u \<Rightarrow> u) \<and>
    t < length (shape a) \<and> int t \<in> set ax \<and>
    valid_index (shape a) idx \<and> idx ! t = shape a ! t - 1"
  then have cw: "Crossover_window fpow axis max_size g a b = Inr (r, g2)"
    and t: "t < length (shape a)" "int t \<in> set ax"
    and idx: "valid_index (shape a) idx" "idx ! t = shape a ! t - 1" by blast+
  define ax' where "ax' = (case axis of None \<Rightarrow> map int [0..<length (shape a)] | Some u \<Rightarrow> u)"
  have ax: "ax = ax'" unfolding ax'_def using h by blast
  from cw have "\<exists>sz1 g1 slices. shape b = shape a \<and>
      make_slices (shape a) ax' sz1 g1 = Inr (slices, g2) \<and>
      r = set_window a slices (get_window b slices)"
    unfolding Crossover_window_def Let_def ax'_def[symmetric]
    by (auto split: if_splits sum.splits prod.splits)
  then obtain sz1 g1 slices where sh: "shape b = shape a"
    and m: "make_slices (shape a) ax' sz1 g1 = Inr (slices, g2)"
    and r: "r = set_window a slices (get_window b slices)" by blast
  have "\<not> in_window slices (shape a) idx"
    using m t(1) t(2)[unfolded ax] idx(2) by (rule last_not_in_window)
  then show "item r idx = item a idx"
    using idx(1) sh r by (simp add: item_crossover_merge)
qed

theorem make_slices_excludes_last_witness:
  "(\<exists>sl g'. make_slices [4] [0] 1 \<lparr>ints = [2], normals = []\<rparr> = Inr (sl, g') \<and>
      snd (sl ! 0) \<le> int ([4] ! 0) - 1) \<and>
   (\<exists>r g2. Crossover_window (\<lambda>x y. x) None (Some 2) \<lparr>ints = [0, 2], normals = []\<rparr>
        \<lparr>shape = [4], data = [1, 2, 3, 4 :: int]\<rparr> \<lparr>shape = [4], data = [5, 6, 7, 8]\<rparr> = Inr (r, g2) \<and>
      item r [3] = item \<lparr>shape = [4], data = [1, 2, 3, 4 :: int]\<rparr> [3])"
proof -
  let ?g = "\<lparr>ints = [2], normals = []\<rparr>"
  let ?a = "\<lparr>shape = [4], data = [1, 2, 3, 4 :: int]\<rparr>"
  let ?b = "\<lparr>shape = [4], data = [5, 6, 7, 8 :: int]\<rparr>"
  let ?cw = "Crossover_window (\<lambda>x y. x) None (Some 2) \<lparr>ints = [0, 2], normals = []\<rparr> ?a ?b"
  have "\<exists>sl g'. make_slices [4] [0] 1 ?g = Inr (sl, g')"
    by (simp add: make_slices_def randint_def next_int_def)
  then obtain sl g' where m: "make_slices [4] [0] 1 ?g = Inr (sl, g')" by blast
  have p1: "make_slices [4] [0] 1 ?g = Inr (sl, g') \<and> 0 < length [4::nat] \<and> int 0 \<in> set [0]"
    using m by simp
  have c1: "snd (sl ! 0) \<le> int ([4] ! 0) - 1"
    using make_slices_excludes_last[THEN conjunct1, of "[4]" "[0]" 1 ?g sl g' 0] p1 by blast
  have "\<exists>r g2. ?cw = Inr (r, g2)"
    by (simp add: Crossover_window_def resolve_max_size_def clamp_max_size_def py_index_def
        draw_size_def make_slices_def randint_def next_int_def)
  then obtain r g2 where w: "?cw = Inr (r, g2)" by blast
  have p2: "?cw = Inr (r, g2) \<and>
      [0] = (case None of None \<Rightarrow> map int [0..<length (shape ?a)] | Some u \<Rightarrow> u) \<and>
      0 < length (shape ?a) \<and> int 0 \<in> set [0] \<and> valid_index (shape ?a) [3] \<and>
      [3] ! 0 = shape ?a ! 0 - 1"
    using w by (simp add: valid_index_def)
  have c2: "item r [3] = item ?a [3]"
    using make_slices_excludes_last[THEN conjunct2, of "\<lambda>x y. x" None "Some 2"
        "\<lparr>ints = [0, 2], normals = []\<rparr>" ?a ?b r g2 "[0]" 0 "[3]"] p2 by blast
  from m c1 w c2 show ?thesis by blast
qed


end
